theory Spec2Isabelle
  imports Main "HOL-Library.AList"
begin

section \<open>JavaScript values and objects\<close>

text \<open>
  Wire messages, frames and handler arguments are JavaScript values. Numbers are the
  integers (the protocol version, document versions and query ids are integers; fractions
  are not modelled). An object is the list of its own enumerable properties in the order
  in which \<^verbatim>\<open>for (k in o)\<close> enumerates them; a key occurs once. Assigning to a key
  that the object has keeps its place, assigning to a new key puts it last
  (\<open>AList.update\<close>), as the engine does for keys that are not array indices, and
  \<^verbatim>\<open>delete\<close> is \<open>AList.delete\<close>. Reading a property that is absent yields
  \<^verbatim>\<open>undefined\<close>. What an object inherits from \<^verbatim>\<open>Object.prototype\<close> is modelled for the
  two objects of the publish/subscribe core that are indexed by channel names, in the
  section on that core.
\<close>

datatype jsval =
    JUndefined
  | JNull
  | JBool bool
  | JNum int
  | JStr string
  | JArr "jsval list"
  | JObj "(string \<times> jsval) list"

type_synonym 'v obj = "(string \<times> 'v) list"

text \<open>\<^verbatim>\<open>if (v)\<close>: the values that JavaScript treats as true.\<close>

fun truthy :: "jsval \<Rightarrow> bool" where
  "truthy JUndefined = False"
| "truthy JNull = False"
| "truthy (JBool b) = b"
| "truthy (JNum n) = (n \<noteq> 0)"
| "truthy (JStr s) = (s \<noteq> [])"
| "truthy (JArr xs) = True"
| "truthy (JObj kvs) = True"

text \<open>\<^verbatim>\<open>v == null\<close> holds of \<^verbatim>\<open>null\<close> and \<^verbatim>\<open>undefined\<close> only.\<close>

fun nullish :: "jsval \<Rightarrow> bool" where
  "nullish JUndefined = True"
| "nullish JNull = True"
| "nullish v = False"

text \<open>Decimal digits of a natural number, as \<^verbatim>\<open>String(n)\<close> prints an array index.\<close>

function show_nat :: "nat \<Rightarrow> string" where
  "show_nat n =
     (if n < 10 then [''0123456789'' ! n]
      else show_nat (n div 10) @ [''0123456789'' ! (n mod 10)])"
  by pat_completeness auto
termination
  by (relation "measure (\<lambda>n. n)") auto

declare show_nat.simps [simp del]

definition show_int :: "int \<Rightarrow> string" where
  "show_int i = (if i < 0 then CHR ''-'' # show_nat (nat (- i)) else show_nat (nat i))"

text \<open>
  A value used as a property key (\<^verbatim>\<open>o[v]\<close>) is converted to a string first. An array
  prints its elements separated by commas, with \<^verbatim>\<open>null\<close> and \<^verbatim>\<open>undefined\<close>
  elements printed as nothing.
\<close>

fun join_keys :: "string list \<Rightarrow> string" where
  "join_keys [] = []"
| "join_keys [s] = s"
| "join_keys (s # t # ss) = s @ '','' @ join_keys (t # ss)"

fun to_key :: "jsval \<Rightarrow> string" where
  "to_key JUndefined = ''undefined''"
| "to_key JNull = ''null''"
| "to_key (JBool b) = (if b then ''true'' else ''false'')"
| "to_key (JNum n) = show_int n"
| "to_key (JStr s) = s"
| "to_key (JArr xs) = join_keys (map (\<lambda>x. if nullish x then [] else to_key x) xs)"
| "to_key (JObj kvs) = ''[object Object]''"

text \<open>
  The own enumerable properties of a value: those of an object, the indices of an array,
  the indices of a string. Numbers, booleans, \<^verbatim>\<open>null\<close> and \<^verbatim>\<open>undefined\<close> have none.
\<close>

fun own_props :: "jsval \<Rightarrow> jsval obj" where
  "own_props (JObj kvs) = kvs"
| "own_props (JArr xs) = zip (map show_nat [0..<length xs]) xs"
| "own_props (JStr s) = zip (map show_nat [0..<length s]) (map (\<lambda>c. JStr [c]) s)"
| "own_props v = []"

text \<open>\<^verbatim>\<open>m.k\<close> on a message object.\<close>

definition read :: "jsval obj \<Rightarrow> string \<Rightarrow> jsval" where
  "read m k = (case map_of m k of Some v \<Rightarrow> v | None \<Rightarrow> JUndefined)"

text \<open>\<^verbatim>\<open>v[k]\<close> and \<^verbatim>\<open>v.k\<close> on a value that is not \<^verbatim>\<open>null\<close> or \<^verbatim>\<open>undefined\<close>.\<close>

definition prop_of :: "jsval \<Rightarrow> string \<Rightarrow> jsval" where
  "prop_of v k = read (own_props v) k"

text \<open>
  \<^verbatim>\<open>JSON.stringify\<close> leaves out the properties whose value is \<^verbatim>\<open>undefined\<close> and
  writes \<^verbatim>\<open>null\<close> for an \<^verbatim>\<open>undefined\<close> array element. The text sent over the
  socket is represented by the value it denotes.
\<close>

fun stringify :: "jsval \<Rightarrow> jsval" where
  "stringify (JArr xs) = JArr (map (\<lambda>x. if x = JUndefined then JNull else stringify x) xs)"
| "stringify (JObj kvs) =
     JObj (map (\<lambda>kv. (fst kv, stringify (snd kv))) (filter (\<lambda>kv. snd kv \<noteq> JUndefined) kvs))"
| "stringify v = v"

section \<open>The connection\<close>

text \<open>
  The collaborators of the connection are outside the code under verification: the
  documents and queries it notifies, the socket, and the listeners of the events it emits.
  Each call that leaves the connection is appended to \<open>trace\<close>, in the order the code
  makes it; the collaborator is taken to return normally and not to call back into the
  connection before it returns. In particular an \<^verbatim>\<open>error\<close> listener is registered, so
  that \<^verbatim>\<open>emit('error', err)\<close> returns to its caller, and \<^verbatim>\<open>close()\<close> of a socket
  returns before the socket reports that it has closed, as \<^verbatim>\<open>close()\<close> of a WebSocket
  does. Documents, queries and agents are objects of other modules and are identified by a
  reference. A method whose name starts with an underscore is modelled under the name
  without it: \<open>setState\<close> is \<^verbatim>\<open>_setState\<close>, \<open>sendBulk\<close> is \<^verbatim>\<open>_sendBulk\<close>, and
  so on. The states of the connection are the strings of the code.
\<close>

text \<open>
  Modelled from the spec: \<^verbatim>\<open>ShareDBError\<close> of \<^verbatim>\<open>lib/error\<close>, a structured error
  carrying a numeric code and a message. \<open>Error\<close> is the built-in error that
  \<open>handleMessage\<close> makes of an error envelope: the argument of its constructor, the
  \<^verbatim>\<open>code\<close> and the \<^verbatim>\<open>data\<close> attached to it.
\<close>

datatype err =
    ShareDBError int string
  | Error jsval jsval "jsval obj"

datatype arg = Val jsval | Err err

datatype effect =
    Emit string "arg list"
  | SocketSend "nat option" jsval
  | SocketClose nat
  | SocketUnbind nat
  | DocCall nat string "arg list"
  | QueryCall nat string "arg list"
  | Console string string "arg list"

record socket =
  sock :: nat
  readyState :: jsval

record doc =
  ref :: nat
  collection :: string
  id_doc :: string
  version :: jsval

record connection =
  collections :: "(string \<times> nat) list obj"
  nextQueryId :: int
  queries :: "nat obj"
  seq :: int
  id_conn :: jsval
  agent :: "nat option"
  debug :: bool
  state :: string
  socket :: "socket option"
  canSend :: bool
  bulk :: "jsval obj obj obj option"
  trace :: "effect list"

text \<open>
  Modelled from the spec: the registry of operational-transform types of
  \<^verbatim>\<open>lib/types\<close>, consulted only to validate the default type the server declares:
  \<^verbatim>\<open>types.map\<close> from a name to a type, and \<^verbatim>\<open>types.defaultType\<close>.
\<close>

record types =
  type_map :: "string \<Rightarrow> nat option"
  defaultType :: nat

definition connectionState :: "socket \<Rightarrow> string" where
  "connectionState s =
     (if readyState s = JNum 0 \<or> readyState s = JNum 1 then ''connecting''
      else ''disconnected'')"

definition emit :: "string \<Rightarrow> arg list \<Rightarrow> connection \<Rightarrow> connection" where
  "emit name args c = c\<lparr>trace := trace c @ [Emit name args]\<rparr>"

definition console :: "string \<Rightarrow> string \<Rightarrow> arg list \<Rightarrow> connection \<Rightarrow> connection" where
  "console level text args c = c\<lparr>trace := trace c @ [Console level text args]\<rparr>"

text \<open>
  \<^verbatim>\<open>send\<close>: the \<^verbatim>\<open>send\<close> event, then \<^verbatim>\<open>socket.send\<close> on the bound socket.
  With no socket bound the call on it throws; the constructor binds one.
\<close>

definition send :: "jsval \<Rightarrow> connection \<Rightarrow> connection" where
  "send message c =
     (let c1 = (if debug c then console ''log'' ''SEND'' [Val (stringify message)] c else c);
          c2 = emit ''send'' [Val message] c1
      in c2\<lparr>trace := trace c2 @ [SocketSend (map_option sock (socket c2)) (stringify message)]\<rparr>)"

definition getExisting :: "string \<Rightarrow> string \<Rightarrow> connection \<Rightarrow> nat option" where
  "getExisting coll ident c =
     (case map_of (collections c) coll of
        Some docs \<Rightarrow> map_of docs ident
      | None \<Rightarrow> None)"

definition reset :: "connection \<Rightarrow> connection" where
  "reset c = c\<lparr>seq := 1, id_conn := JNull, agent := None\<rparr>"

definition startBulk :: "connection \<Rightarrow> connection" where
  "startBulk c = (if bulk c = None then c\<lparr>bulk := Some []\<rparr> else c)"

text \<open>
  The loop of \<^verbatim>\<open>_sendBulk\<close> over the entries of \<^verbatim>\<open>values\<close>; the state of the loop is
  \<^verbatim>\<open>(ids, versions, versionsCount, versionId)\<close>.
\<close>

fun scan_values ::
  "jsval obj \<Rightarrow> string list \<times> jsval obj \<times> int \<times> jsval \<Rightarrow> string list \<times> jsval obj \<times> int \<times> jsval"
where
  "scan_values [] acc = acc"
| "scan_values ((ident, val) # rest) (ids, versions, versionsCount, versionId) =
     (if nullish val
      then scan_values rest (ids @ [ident], versions, versionsCount, versionId)
      else scan_values rest
             (ids, AList.update ident val versions, versionsCount + 1, JStr ident))"

definition sendBulk :: "string \<Rightarrow> string \<Rightarrow> jsval obj option \<Rightarrow> connection \<Rightarrow> connection" where
  "sendBulk action coll values c =
     (case values of
        None \<Rightarrow> c
      | Some vs \<Rightarrow>
          (case scan_values vs ([], [], 0, JUndefined) of
             (ids, versions, versionsCount, versionId) \<Rightarrow>
               (let c1 =
                      (if length ids = 1
                       then send (JObj [(''a'', JStr action), (''c'', JStr coll),
                                        (''d'', JStr (hd ids))]) c
                       else if length ids \<noteq> 0
                       then send (JObj [(''a'', JStr (''b'' @ action)), (''c'', JStr coll),
                                        (''b'', JArr (map JStr ids))]) c
                       else c)
                in if versionsCount = 1
                   then send (JObj [(''a'', JStr action), (''c'', JStr coll),
                                    (''d'', versionId),
                                    (''v'', read versions (to_key versionId))]) c1
                   else if versionsCount \<noteq> 0
                   then send (JObj [(''a'', JStr (''b'' @ action)), (''c'', JStr coll),
                                    (''b'', JObj versions)]) c1
                   else c1)))"

fun endBulk_loop :: "jsval obj obj obj \<Rightarrow> connection \<Rightarrow> connection" where
  "endBulk_loop [] c = c"
| "endBulk_loop ((coll, actions) # rest) c =
     endBulk_loop rest
       (sendBulk ''u'' coll (map_of actions ''u'')
         (sendBulk ''s'' coll (map_of actions ''s'')
           (sendBulk ''f'' coll (map_of actions ''f'') c)))"

definition endBulk :: "connection \<Rightarrow> connection" where
  "endBulk c =
     (case bulk c of
        Some b \<Rightarrow> (endBulk_loop b c)\<lparr>bulk := None\<rparr>
      | None \<Rightarrow> c\<lparr>bulk := None\<rparr>)"

text \<open>The two notification loops of \<^verbatim>\<open>_setState\<close>.\<close>

fun notify_queries :: "nat obj \<Rightarrow> connection \<Rightarrow> connection" where
  "notify_queries [] c = c"
| "notify_queries ((k, q) # rest) c =
     notify_queries rest (c\<lparr>trace := trace c @ [QueryCall q ''_onConnectionStateChanged'' []]\<rparr>)"

fun notify_docs :: "nat obj \<Rightarrow> connection \<Rightarrow> connection" where
  "notify_docs [] c = c"
| "notify_docs ((k, d) # rest) c =
     notify_docs rest (c\<lparr>trace := trace c @ [DocCall d ''_onConnectionStateChanged'' []]\<rparr>)"

fun notify_collections :: "nat obj obj \<Rightarrow> connection \<Rightarrow> connection" where
  "notify_collections [] c = c"
| "notify_collections ((coll, docs) # rest) c = notify_collections rest (notify_docs docs c)"

text \<open>
  The test by which \<^verbatim>\<open>_setState\<close> rejects a transition: to \<^verbatim>\<open>connecting\<close> from a
  state other than \<^verbatim>\<open>disconnected\<close>, \<^verbatim>\<open>stopped\<close> and \<^verbatim>\<open>closed\<close>, or to
  \<^verbatim>\<open>connected\<close> from a state other than \<^verbatim>\<open>connecting\<close>. It comes second, after the
  test that the new state is the current one.
\<close>

definition illegal :: "string \<Rightarrow> string \<Rightarrow> bool" where
  "illegal old newState \<longleftrightarrow>
     (newState = ''connecting'' \<and> old \<noteq> ''disconnected'' \<and> old \<noteq> ''stopped''
        \<and> old \<noteq> ''closed'')
     \<or> (newState = ''connected'' \<and> old \<noteq> ''connecting'')"

definition setState :: "string \<Rightarrow> jsval \<Rightarrow> connection \<Rightarrow> connection" where
  "setState newState reason c =
     (if state c = newState then c
      else if illegal (state c) newState
      then emit ''error''
             [Err (ShareDBError 5007
                     (''Cannot transition directly from '' @ state c @ '' to '' @ newState))] c
      else
        (let c1 = c\<lparr>state := newState, canSend := (newState = ''connected'')\<rparr>;
             c2 = (if newState = ''disconnected'' \<or> newState = ''stopped''
                      \<or> newState = ''closed''
                   then reset c1 else c1);
             c3 = startBulk c2;
             c4 = notify_queries (queries c3) c3;
             c5 = notify_collections (collections c4) c4;
             c6 = endBulk c5;
             c7 = emit newState [Val reason] c6
         in emit ''state'' [Val (JStr newState), Val reason] c7))"

text \<open>
  \<^verbatim>\<open>_handleBulkMessage\<close>: the three loops, over the keys of \<^verbatim>\<open>message.data\<close>, over the
  elements of the array \<^verbatim>\<open>message.b\<close>, and over the keys of the mapping \<^verbatim>\<open>message.b\<close>.
  \<open>forward\<close> is the body they share: look the document up, and call the handler on it if
  it exists.
\<close>

definition forward :: "jsval obj \<Rightarrow> string \<Rightarrow> string \<Rightarrow> arg list \<Rightarrow> connection \<Rightarrow> connection" where
  "forward message ident method args c =
     (case getExisting (to_key (read message ''c'')) ident c of
        Some d \<Rightarrow> c\<lparr>trace := trace c @ [DocCall d method args]\<rparr>
      | None \<Rightarrow> c)"

fun bulk_data_loop :: "string list \<Rightarrow> jsval obj \<Rightarrow> string \<Rightarrow> connection \<Rightarrow> connection" where
  "bulk_data_loop [] message method c = c"
| "bulk_data_loop (ident # rest) message method c =
     bulk_data_loop rest message method
       (forward message ident method
          [Val (read message ''error''), Val (prop_of (read message ''data'') ident)] c)"

fun bulk_array_loop :: "jsval list \<Rightarrow> jsval obj \<Rightarrow> string \<Rightarrow> connection \<Rightarrow> connection" where
  "bulk_array_loop [] message method c = c"
| "bulk_array_loop (ident # rest) message method c =
     bulk_array_loop rest message method
       (forward message (to_key ident) method [Val (read message ''error'')] c)"

fun bulk_keys_loop :: "string list \<Rightarrow> jsval obj \<Rightarrow> string \<Rightarrow> connection \<Rightarrow> connection" where
  "bulk_keys_loop [] message method c = c"
| "bulk_keys_loop (ident # rest) message method c =
     bulk_keys_loop rest message method
       (forward message ident method [Val (read message ''error'')] c)"

definition handleBulkMessage :: "jsval obj \<Rightarrow> string \<Rightarrow> connection \<Rightarrow> connection" where
  "handleBulkMessage message method c =
     (if truthy (read message ''data'')
      then bulk_data_loop (map fst (own_props (read message ''data''))) message method c
      else case read message ''b'' of
             JArr ids \<Rightarrow> bulk_array_loop ids message method c
           | b \<Rightarrow>
               if truthy b
               then bulk_keys_loop (map fst (own_props b)) message method c
               else console ''error'' ''Invalid bulk message'' [Val (JObj message)] c)"

definition query_call :: "jsval obj \<Rightarrow> string \<Rightarrow> arg list \<Rightarrow> connection \<Rightarrow> connection" where
  "query_call message method args c =
     (case map_of (queries c) (to_key (read message ''id'')) of
        Some q \<Rightarrow> c\<lparr>trace := trace c @ [QueryCall q method args]\<rparr>
      | None \<Rightarrow> c)"

definition is_string :: "jsval \<Rightarrow> bool" where
  "is_string v = (case v of JStr s \<Rightarrow> True | _ \<Rightarrow> False)"

text \<open>
  \<^verbatim>\<open>handleMessage\<close>. The message is an object (the on-message callback passes nothing
  else on). An error envelope is wrapped into \<open>err\<close> and deleted from the message before
  the switch on the action \<^verbatim>\<open>message.a\<close>.
\<close>

definition handleMessage :: "types \<Rightarrow> jsval obj \<Rightarrow> connection \<Rightarrow> connection" where
  "handleMessage T message0 c =
     (let error = read message0 ''error'';
          message = (if truthy error then AList.delete ''error'' message0 else message0);
          err = (if truthy error
                 then Err (Error (prop_of error ''message'') (prop_of error ''code'') message)
                 else Val JNull);
          a = read message ''a''
      in
      if a = JStr ''init'' then
        (if read message ''protocol'' \<noteq> JNum 1
         then emit ''error'' [Err (ShareDBError 4019 ''Invalid protocol version'')] c
         else if type_map T (to_key (read message ''type'')) \<noteq> Some (defaultType T)
         then emit ''error'' [Err (ShareDBError 4020 ''Invalid default type'')] c
         else if \<not> is_string (read message ''id'')
         then emit ''error'' [Err (ShareDBError 4021 ''Invalid client id'')] c
         else setState ''connected'' JUndefined (c\<lparr>id_conn := read message ''id''\<rparr>))
      else if a = JStr ''qf'' then
        query_call message ''_handleFetch''
          [err, Val (read message ''data''), Val (read message ''extra'')] c
      else if a = JStr ''qs'' then
        query_call message ''_handleSubscribe''
          [err, Val (read message ''data''), Val (read message ''extra'')] c
      else if a = JStr ''qu'' then c
      else if a = JStr ''q'' then
        (if map_of (queries c) (to_key (read message ''id'')) = None then c
         else if err \<noteq> Val JNull then query_call message ''_handleError'' [err] c
         else
           (let c1 = (if truthy (read message ''diff'')
                      then query_call message ''_handleDiff'' [Val (read message ''diff'')] c
                      else c)
            in if map_of message ''extra'' \<noteq> None
               then query_call message ''_handleExtra'' [Val (read message ''extra'')] c1
               else c1))
      else if a = JStr ''bf'' then handleBulkMessage message ''_handleFetch'' c
      else if a = JStr ''bs'' then handleBulkMessage message ''_handleSubscribe'' c
      else if a = JStr ''bu'' then handleBulkMessage message ''_handleUnsubscribe'' c
      else if a = JStr ''f'' then
        forward message (to_key (read message ''d'')) ''_handleFetch''
          [err, Val (read message ''data'')] c
      else if a = JStr ''s'' then
        forward message (to_key (read message ''d'')) ''_handleSubscribe''
          [err, Val (read message ''data'')] c
      else if a = JStr ''u'' then
        forward message (to_key (read message ''d'')) ''_handleUnsubscribe'' [err] c
      else if a = JStr ''op'' then
        forward message (to_key (read message ''d'')) ''_handleOp'' [err, Val (JObj message)] c
      else console ''warn'' ''Ignoring unrecognized message'' [Val (JObj message)] c)"

text \<open>
  \<^verbatim>\<open>bindToSocket\<close>: the previous socket, if any, is closed and loses its four callbacks;
  the state is derived from the new socket; \<^verbatim>\<open>canSend\<close> is set to false; the callbacks
  are installed on the new socket. The callbacks are the functions \<open>socket_onmessage\<close>,
  \<open>socket_onopen\<close>, \<open>socket_onerror\<close> and \<open>socket_onclose\<close> below.
\<close>

definition bindToSocket :: "socket \<Rightarrow> connection \<Rightarrow> connection" where
  "bindToSocket s c =
     (let c1 = (case socket c of
                  Some old \<Rightarrow> c\<lparr>trace := trace c @ [SocketClose (sock old), SocketUnbind (sock old)]\<rparr>
                | None \<Rightarrow> c);
          c2 = c1\<lparr>socket := Some s\<rparr>;
          newState = connectionState s;
          c3 = setState newState JUndefined c2
      in c3\<lparr>canSend := False\<rparr>)"

text \<open>The constructor. Before \<^verbatim>\<open>bindToSocket\<close> runs, \<^verbatim>\<open>socket\<close>, \<^verbatim>\<open>bulk\<close> and
  \<^verbatim>\<open>canSend\<close> are \<^verbatim>\<open>undefined\<close>, which every test of them treats as false.\<close>

definition Connection :: "socket \<Rightarrow> connection" where
  "Connection s =
     bindToSocket s
       \<lparr>collections = [], nextQueryId = 1, queries = [], seq = 1, id_conn = JNull,
        agent = None, debug = False, state = connectionState s, socket = None,
        canSend = False, bulk = None, trace = []\<rparr>"

definition socket_onopen :: "connection \<Rightarrow> connection" where
  "socket_onopen c = setState ''connecting'' JUndefined c"

definition socket_onerror :: "jsval \<Rightarrow> connection \<Rightarrow> connection" where
  "socket_onerror e c = emit ''connection error'' [Val e] c"

definition socket_onclose :: "jsval \<Rightarrow> connection \<Rightarrow> connection" where
  "socket_onclose reason c =
     (if reason = JStr ''closed'' \<or> reason = JStr ''Closed''
      then setState ''closed'' reason c
      else if reason = JStr ''stopped'' \<or> reason = JStr ''Stopped by server''
      then setState ''stopped'' reason c
      else setState ''disconnected'' reason c)"

text \<open>
  The on-message callback. \<open>parse\<close> stands for \<^verbatim>\<open>JSON.parse\<close>, with \<open>None\<close> where it
  throws. The listeners of \<^verbatim>\<open>receive\<close> leave the envelope as it is.
\<close>

definition socket_onmessage :: "types \<Rightarrow> (string \<Rightarrow> jsval option) \<Rightarrow> jsval \<Rightarrow> connection \<Rightarrow> connection" where
  "socket_onmessage T parse event c =
     (case (case prop_of event ''data'' of JStr s \<Rightarrow> parse s | d \<Rightarrow> Some d) of
        None \<Rightarrow> console ''warn'' ''Failed to parse message'' [Val event] c
      | Some data \<Rightarrow>
          (let c1 = (if debug c then console ''log'' ''RECV'' [Val (stringify data)] c else c);
               c2 = emit ''receive'' [Val (JObj [(''data'', data)])] c1
           in if \<not> truthy data then c2 else handleMessage T (own_props data) c2))"

text \<open>Registering a document, and the outbound fetch, subscribe and unsubscribe.\<close>

definition addDoc :: "doc \<Rightarrow> connection \<Rightarrow> connection" where
  "addDoc d c =
     (let docs = (case map_of (collections c) (collection d) of Some ds \<Rightarrow> ds | None \<Rightarrow> []);
          docs' = (if map_of docs (id_doc d) \<noteq> Some (ref d)
                   then AList.update (id_doc d) (ref d) docs else docs)
      in c\<lparr>collections := AList.update (collection d) docs' (collections c)\<rparr>)"

definition sendAction :: "string \<Rightarrow> doc \<Rightarrow> jsval \<Rightarrow> connection \<Rightarrow> jsval \<times> connection" where
  "sendAction action d ver c =
     (let c1 = addDoc d c in
      case bulk c1 of
        Some b \<Rightarrow>
          (let actions = (case map_of b (collection d) of Some x \<Rightarrow> x | None \<Rightarrow> []);
               versions = (case map_of actions action of Some x \<Rightarrow> x | None \<Rightarrow> []);
               isDuplicate = (map_of versions (id_doc d) \<noteq> None);
               versions' = AList.update (id_doc d) ver versions
           in (JBool isDuplicate,
               c1\<lparr>bulk := Some (AList.update (collection d)
                                   (AList.update action versions' actions) b)\<rparr>))
      | None \<Rightarrow>
          (JUndefined,
           send (JObj [(''a'', JStr action), (''c'', JStr (collection d)),
                       (''d'', JStr (id_doc d)), (''v'', ver)]) c1))"

definition sendFetch :: "doc \<Rightarrow> connection \<Rightarrow> jsval \<times> connection" where
  "sendFetch d c = sendAction ''f'' d (version d) c"

definition sendSubscribe :: "doc \<Rightarrow> connection \<Rightarrow> jsval \<times> connection" where
  "sendSubscribe d c = sendAction ''s'' d (version d) c"

definition sendUnsubscribe :: "doc \<Rightarrow> connection \<Rightarrow> jsval \<times> connection" where
  "sendUnsubscribe d c = sendAction ''u'' d JUndefined c"

section \<open>The publish/subscribe core\<close>

text \<open>
  \<^verbatim>\<open>PubSub\<close> is an abstract class: \<^verbatim>\<open>_subscribe\<close>, \<^verbatim>\<open>_unsubscribe\<close> and
  \<^verbatim>\<open>_publish\<close> belong to the transport. A call of one of them is appended to
  \<open>calls\<close>; the transport answers later, by running the continuation it was given
  (\<open>subscribe_done\<close> below for \<^verbatim>\<open>_subscribe\<close>). The caller's callbacks are identified
  by a reference, and a call of one is appended to \<open>calls\<close> as well. A function handed
  to \<^verbatim>\<open>process.nextTick\<close> is appended to the queue \<open>ticks\<close>, which the event loop
  runs from the front once the running operation has returned (\<open>next_tick\<close>).
\<close>

record stream =
  id_stream :: nat

datatype ps_arg = Null | Failure jsval | Stream stream

datatype ps_effect =
    TransportSubscribe string nat
  | TransportUnsubscribe string
  | TransportPublish nat "string list" jsval nat
  | Callback nat "ps_arg list"

datatype tick = CreateStreamAndCallBack string nat

text \<open>
  \<^verbatim>\<open>streams\<close> and \<^verbatim>\<open>subscribed\<close> are plain objects, so that \<^verbatim>\<open>this.streams[channel]\<close>
  and \<^verbatim>\<open>this.subscribed[channel]\<close> find, for a channel the object has no property of its
  own for, what \<^verbatim>\<open>Object.prototype\<close> has under that name: one of its members
  (\<^verbatim>\<open>constructor\<close> is the function \<^verbatim>\<open>Object\<close>, \<^verbatim>\<open>toString\<close> a function, and so on;
  \<^verbatim>\<open>__proto__\<close> is \<^verbatim>\<open>Object.prototype\<close> itself), or a property that has been put on
  \<^verbatim>\<open>Object.prototype\<close>. Each of these is an object, hence true in a test, and
  \<^verbatim>\<open>_createStream\<close> uses it as the map of the channel and stores streams on it. Such an
  object is a \<open>holder\<close>: a member of \<^verbatim>\<open>Object.prototype\<close> by its name, or a stream by its
  id. \<open>held\<close> records the streams stored on the holders, under their ids; the streams stored
  on \<open>Member ''__proto__''\<close> are properties of \<^verbatim>\<open>Object.prototype\<close>, which every object
  inherits under the decimal name of the id.
\<close>

definition proto_members :: "string list" where
  "proto_members =
     [''constructor'', ''__defineGetter__'', ''__defineSetter__'', ''hasOwnProperty'',
      ''__lookupGetter__'', ''__lookupSetter__'', ''isPrototypeOf'', ''propertyIsEnumerable'',
      ''toString'', ''valueOf'', ''__proto__'', ''toLocaleString'']"

datatype holder = Member string | StreamObject nat

record pubsub =
  prefix :: "string option"
  nextStreamId :: nat
  streamsCount :: int
  streams :: "(nat \<times> stream) list obj"
  subscribed :: "bool obj"
  held :: "(holder \<times> (nat \<times> stream) list) list"
  calls :: "ps_effect list"
  ticks :: "tick list"

definition PubSub :: "string option \<Rightarrow> pubsub" where
  "PubSub options_prefix =
     \<lparr>prefix = options_prefix, nextStreamId = 1, streamsCount = 0, streams = [],
      subscribed = [], held = [], calls = [], ticks = []\<rparr>"

text \<open>\<^verbatim>\<open>if (this.prefix)\<close>: a prefix is present and is not the empty string.\<close>

definition truthy_prefix :: "pubsub \<Rightarrow> string option" where
  "truthy_prefix ps =
     (case prefix ps of Some p \<Rightarrow> if p \<noteq> [] then Some p else None | None \<Rightarrow> None)"

definition prefixed :: "pubsub \<Rightarrow> string \<Rightarrow> string" where
  "prefixed ps channel =
     (case truthy_prefix ps of Some p \<Rightarrow> p @ '' '' @ channel | None \<Rightarrow> channel)"

text \<open>The streams stored on a holder.\<close>

definition props_of :: "pubsub \<Rightarrow> holder \<Rightarrow> (nat \<times> stream) list" where
  "props_of ps h = (case map_of (held ps) h of Some m \<Rightarrow> m | None \<Rightarrow> [])"

text \<open>
  What an object without a property of its own for \<open>key\<close> inherits under \<open>key\<close> from
  \<^verbatim>\<open>Object.prototype\<close>, if anything.
\<close>

definition inherited :: "pubsub \<Rightarrow> string \<Rightarrow> holder option" where
  "inherited ps key =
     (if key \<in> set proto_members then Some (Member key)
      else case map_of (map (\<lambda>is. (show_nat (fst is), snd is)) (props_of ps (Member ''__proto__'')))
                  key of
             Some st \<Rightarrow> Some (StreamObject (id_stream st))
           | None \<Rightarrow> None)"

text \<open>
  \<^verbatim>\<open>if (this.subscribed[channel])\<close>: the flag of the channel if \<^verbatim>\<open>subscribed\<close> has one of
  its own, and otherwise whether something is inherited under that name.
\<close>

definition is_subscribed :: "pubsub \<Rightarrow> string \<Rightarrow> bool" where
  "is_subscribed ps channel =
     (case map_of (subscribed ps) channel of
        Some flag \<Rightarrow> flag
      | None \<Rightarrow> inherited ps channel \<noteq> None)"

text \<open>
  \<^verbatim>\<open>this.streams[channel]\<close>: the inner map that \<^verbatim>\<open>streams\<close> has for the channel, or the
  holder inherited under that name, or nothing. \<open>stream_map\<close> gives the streams stored on
  what is found.
\<close>

datatype place = Own "(nat \<times> stream) list" | Held holder

definition stream_place :: "pubsub \<Rightarrow> string \<Rightarrow> place option" where
  "stream_place ps channel =
     (case map_of (streams ps) channel of
        Some m \<Rightarrow> Some (Own m)
      | None \<Rightarrow> map_option Held (inherited ps channel))"

definition stream_map :: "pubsub \<Rightarrow> string \<Rightarrow> (nat \<times> stream) list option" where
  "stream_map ps channel =
     (case stream_place ps channel of
        Some (Own m) \<Rightarrow> Some m
      | Some (Held h) \<Rightarrow> Some (props_of ps h)
      | None \<Rightarrow> None)"

text \<open>
  Modelled from the spec: \<^verbatim>\<open>util.hasKeys\<close> of \<^verbatim>\<open>lib/util\<close>, which tells whether an
  object has a key (\<open>if the inner map is now empty\<close>). A stream has the key \<^verbatim>\<open>id\<close>,
  which \<^verbatim>\<open>_createStream\<close> has assigned.
\<close>

definition hasKeys :: "('k \<times> 'v) list \<Rightarrow> bool" where
  "hasKeys m = (m \<noteq> [])"

definition holder_hasKeys :: "holder \<Rightarrow> (nat \<times> stream) list \<Rightarrow> bool" where
  "holder_hasKeys h m = (case h of Member name \<Rightarrow> hasKeys m | StreamObject i \<Rightarrow> True)"

text \<open>
  The arrays of channel names that callers pass to \<^verbatim>\<open>publish\<close> live in a store, so
  that what \<^verbatim>\<open>publish\<close> writes into the array it is given is seen by whoever holds
  the array.
\<close>

type_synonym store = "nat \<Rightarrow> string list"

function prefix_loop :: "string \<Rightarrow> nat \<Rightarrow> string list \<Rightarrow> string list" where
  "prefix_loop p i channels =
     (if i < length channels
      then prefix_loop p (Suc i) (channels[i := p @ '' '' @ channels ! i])
      else channels)"
  by pat_completeness auto
termination
  by (relation "measure (\<lambda>(p, i, channels). length channels - i)") auto

declare prefix_loop.simps [simp del]

definition publish :: "nat \<Rightarrow> jsval \<Rightarrow> nat \<Rightarrow> store \<times> pubsub \<Rightarrow> store \<times> pubsub" where
  "publish channels dat callback hp =
     (case hp of (h, ps) \<Rightarrow>
        (let h' = (case truthy_prefix ps of
                     Some p \<Rightarrow> h(channels := prefix_loop p 0 (h channels))
                   | None \<Rightarrow> h)
         in (h', ps\<lparr>calls := calls ps @ [TransportPublish channels (h' channels) dat callback]\<rparr>)))"

text \<open>
  \<^verbatim>\<open>_createStream\<close>. The map is what \<^verbatim>\<open>this.streams[channel]\<close> finds; only when it finds
  nothing is an empty inner map created for the channel.
\<close>

definition createStream :: "string \<Rightarrow> pubsub \<Rightarrow> stream \<times> pubsub" where
  "createStream channel ps =
     (let ps1 = ps\<lparr>streamsCount := streamsCount ps + 1\<rparr>;
          st = \<lparr>id_stream = nextStreamId ps1\<rparr>;
          ps2 = ps1\<lparr>nextStreamId := nextStreamId ps1 + 1\<rparr>
      in case stream_place ps1 channel of
           Some (Held h) \<Rightarrow>
             (st, ps2\<lparr>held := AList.update h (AList.update (id_stream st) st (props_of ps2 h))
                                 (held ps2)\<rparr>)
         | Some (Own m) \<Rightarrow>
             (st, ps2\<lparr>streams := AList.update channel (AList.update (id_stream st) st m)
                                    (streams ps2)\<rparr>)
         | None \<Rightarrow>
             (st, ps2\<lparr>streams := AList.update channel (AList.update (id_stream st) st [])
                                    (streams ps2)\<rparr>))"

definition subscribe :: "string \<Rightarrow> nat \<Rightarrow> pubsub \<Rightarrow> pubsub" where
  "subscribe channel0 callback ps =
     (let channel = prefixed ps channel0 in
      if is_subscribed ps channel
      then ps\<lparr>ticks := ticks ps @ [CreateStreamAndCallBack channel callback]\<rparr>
      else ps\<lparr>calls := calls ps @ [TransportSubscribe channel callback]\<rparr>)"

text \<open>The function that \<^verbatim>\<open>subscribe\<close> hands to \<^verbatim>\<open>process.nextTick\<close>.\<close>

fun run_tick :: "tick \<Rightarrow> pubsub \<Rightarrow> pubsub" where
  "run_tick (CreateStreamAndCallBack channel callback) ps =
     (case createStream channel ps of
        (st, ps1) \<Rightarrow> ps1\<lparr>calls := calls ps1 @ [Callback callback [Null, Stream st]]\<rparr>)"

definition next_tick :: "pubsub \<Rightarrow> pubsub" where
  "next_tick ps = (case ticks ps of [] \<Rightarrow> ps | t # ts \<Rightarrow> run_tick t (ps\<lparr>ticks := ts\<rparr>))"

text \<open>
  The function that \<^verbatim>\<open>subscribe\<close> hands to the transport's \<^verbatim>\<open>_subscribe\<close>, run by
  the transport with its outcome \<open>err\<close>. The assignment \<^verbatim>\<open>subscribed[channel] = true\<close>
  gives \<^verbatim>\<open>subscribed\<close> a property of its own, except under the name \<^verbatim>\<open>__proto__\<close>,
  where it runs the setter of \<^verbatim>\<open>Object.prototype\<close>, which ignores a value that is not
  an object.
\<close>

definition subscribe_done :: "string \<Rightarrow> nat \<Rightarrow> jsval \<Rightarrow> pubsub \<Rightarrow> pubsub" where
  "subscribe_done channel callback err ps =
     (if truthy err then ps\<lparr>calls := calls ps @ [Callback callback [Failure err]]\<rparr>
      else
        (let ps1 = (if channel = ''__proto__'' then ps
                    else ps\<lparr>subscribed := AList.update channel True (subscribed ps)\<rparr>) in
         case createStream channel ps1 of
           (st, ps2) \<Rightarrow> ps2\<lparr>calls := calls ps2 @ [Callback callback [Null, Stream st]]\<rparr>))"

text \<open>
  \<^verbatim>\<open>_removeStream\<close>, which the one-shot \<^verbatim>\<open>close\<close> handler of a stream runs. The
  transport's \<^verbatim>\<open>_unsubscribe\<close> is the parameter \<open>unsubscribe\<close>: it is run on the instance as
  \<^verbatim>\<open>_removeStream\<close> has left it, the call appended to \<open>calls\<close>, and what it returns is
  what \<^verbatim>\<open>_removeStream\<close> returns. \<open>returns\<close> is the \<^verbatim>\<open>_unsubscribe\<close> that leaves the
  instance as it is and answers later.
\<close>

definition call_unsubscribe :: "string \<Rightarrow> pubsub \<Rightarrow> pubsub" where
  "call_unsubscribe channel ps = ps\<lparr>calls := calls ps @ [TransportUnsubscribe channel]\<rparr>"

definition returns :: "string \<Rightarrow> pubsub \<Rightarrow> pubsub" where
  "returns channel ps = ps"

definition removeStream ::
  "(string \<Rightarrow> pubsub \<Rightarrow> pubsub) \<Rightarrow> string \<Rightarrow> stream \<Rightarrow> pubsub \<Rightarrow> pubsub" where
  "removeStream unsubscribe channel st ps =
     (case stream_place ps channel of
        None \<Rightarrow> ps
      | Some found \<Rightarrow>
          (let ps1 = ps\<lparr>streamsCount := streamsCount ps - 1\<rparr>;
               ps2 = (case found of
                        Own m \<Rightarrow>
                          ps1\<lparr>streams := AList.update channel (AList.delete (id_stream st) m)
                                            (streams ps1)\<rparr>
                      | Held h \<Rightarrow>
                          ps1\<lparr>held := AList.update h (AList.delete (id_stream st) (props_of ps1 h))
                                         (held ps1)\<rparr>)
           in if (case found of
                    Own m \<Rightarrow> hasKeys (AList.delete (id_stream st) m)
                  | Held h \<Rightarrow> holder_hasKeys h (props_of ps2 h))
              then ps2
              else
                (let ps3 = ps2\<lparr>streams := AList.delete channel (streams ps2)\<rparr>;
                     ps4 = ps3\<lparr>subscribed := AList.delete channel (subscribed ps3)\<rparr>
                 in unsubscribe channel (call_unsubscribe channel ps4))))"

section \<open>Notions used in the statements\<close>

text \<open>\<open>only_trace c c'\<close>: the connection \<open>c'\<close> differs from \<open>c\<close> in its trace at most.\<close>

definition only_trace :: "connection \<Rightarrow> connection \<Rightarrow> bool" where
  "only_trace c c' \<longleftrightarrow> c' = c\<lparr>trace := trace c'\<rparr>"

text \<open>What one call of \<open>send\<close> appends to the trace, and what a sequence of calls appends.\<close>

definition send_trace :: "bool \<Rightarrow> nat option \<Rightarrow> jsval \<Rightarrow> effect list" where
  "send_trace dbg sk message =
     (if dbg then [Console ''log'' ''SEND'' [Val (stringify message)]] else [])
     @ [Emit ''send'' [Val message], SocketSend sk (stringify message)]"

definition sends :: "connection \<Rightarrow> jsval list \<Rightarrow> effect list" where
  "sends c frames = concat (map (send_trace (debug c) (map_option sock (socket c))) frames)"

text \<open>
  The frames of the bulk batching protocol as the specification words them. The entries
  accumulated for a collection and an action fall into two groups, those without a version
  and those with one. A group of one entry gives the single-form frame, a group of several
  entries the bulk-form frame, an empty group nothing.
\<close>

definition version_absent :: "jsval obj \<Rightarrow> string list" where
  "version_absent vs = map fst (filter (\<lambda>kv. nullish (snd kv)) vs)"

definition versioned :: "jsval obj \<Rightarrow> jsval obj" where
  "versioned vs = filter (\<lambda>kv. \<not> nullish (snd kv)) vs"

fun absent_frames :: "string \<Rightarrow> string \<Rightarrow> string list \<Rightarrow> jsval list" where
  "absent_frames action coll [] = []"
| "absent_frames action coll [d] =
     [JObj [(''a'', JStr action), (''c'', JStr coll), (''d'', JStr d)]]"
| "absent_frames action coll ids =
     [JObj [(''a'', JStr (''b'' @ action)), (''c'', JStr coll), (''b'', JArr (map JStr ids))]]"

fun versioned_frames :: "string \<Rightarrow> string \<Rightarrow> jsval obj \<Rightarrow> jsval list" where
  "versioned_frames action coll [] = []"
| "versioned_frames action coll [(d, v)] =
     [JObj [(''a'', JStr action), (''c'', JStr coll), (''d'', JStr d), (''v'', v)]]"
| "versioned_frames action coll vs =
     [JObj [(''a'', JStr (''b'' @ action)), (''c'', JStr coll), (''b'', JObj vs)]]"

definition pair_frames :: "string \<Rightarrow> string \<Rightarrow> jsval obj option \<Rightarrow> jsval list" where
  "pair_frames action coll vals =
     (case vals of
        None \<Rightarrow> []
      | Some vs \<Rightarrow>
          absent_frames action coll (version_absent vs)
          @ versioned_frames action coll (versioned vs))"

fun bulk_frames :: "jsval obj obj obj \<Rightarrow> jsval list" where
  "bulk_frames [] = []"
| "bulk_frames ((coll, actions) # rest) =
     pair_frames ''f'' coll (map_of actions ''f'')
     @ pair_frames ''s'' coll (map_of actions ''s'')
     @ pair_frames ''u'' coll (map_of actions ''u'')
     @ bulk_frames rest"

text \<open>An object has each key once; so has every object inside a bulk accumulator.\<close>

definition distinct_keys :: "'v obj \<Rightarrow> bool" where
  "distinct_keys m = distinct (map fst m)"

definition wf_bulk :: "jsval obj obj obj \<Rightarrow> bool" where
  "wf_bulk b \<longleftrightarrow>
     distinct_keys b
     \<and> list_all (\<lambda>ca. distinct_keys (snd ca)
                    \<and> list_all (\<lambda>av. distinct_keys (snd av)) (snd ca)) b"

text \<open>The accumulator of a connection is absent or well formed.\<close>

definition bulk_ok :: "connection \<Rightarrow> bool" where
  "bulk_ok c = (case bulk c of None \<Rightarrow> True | Some b \<Rightarrow> wf_bulk b)"

text \<open>
  The connections that the constructor and the operations of the model lead to. The flag
  \<^verbatim>\<open>debug\<close> and the reference \<^verbatim>\<open>agent\<close> are public fields that callers assign.
\<close>

inductive reachable :: "types \<Rightarrow> connection \<Rightarrow> bool" for T :: types where
  r_new: "reachable T (Connection s)"
| r_bind: "reachable T c \<Longrightarrow> reachable T (bindToSocket s c)"
| r_onopen: "reachable T c \<Longrightarrow> reachable T (socket_onopen c)"
| r_onclose: "reachable T c \<Longrightarrow> reachable T (socket_onclose reason c)"
| r_onerror: "reachable T c \<Longrightarrow> reachable T (socket_onerror e c)"
| r_onmessage: "reachable T c \<Longrightarrow> reachable T (socket_onmessage T parse event c)"
| r_handle: "reachable T c \<Longrightarrow> reachable T (handleMessage T message c)"
| r_setState: "reachable T c \<Longrightarrow> reachable T (setState newState reason c)"
| r_startBulk: "reachable T c \<Longrightarrow> reachable T (startBulk c)"
| r_endBulk: "reachable T c \<Longrightarrow> reachable T (endBulk c)"
| r_sendAction: "reachable T c \<Longrightarrow> reachable T (snd (sendAction action d ver c))"
| r_debug: "reachable T c \<Longrightarrow> reachable T (c\<lparr>debug := flag\<rparr>)"
| r_agent: "reachable T c \<Longrightarrow> reachable T (c\<lparr>agent := a\<rparr>)"

text \<open>
  What holds of every reachable connection: \<^verbatim>\<open>canSend\<close> is true in the state
  \<^verbatim>\<open>connected\<close> only, a socket is bound, and the accumulator is absent or well formed.
\<close>

definition conn_inv :: "connection \<Rightarrow> bool" where
  "conn_inv c \<longleftrightarrow> (canSend c \<longrightarrow> state c = ''connected'') \<and> socket c \<noteq> None \<and> bulk_ok c"

text \<open>
  The instances that the constructor and the operations of the model lead to, and what
  holds of each of them: a channel occurs once in \<^verbatim>\<open>streams\<close>, with at least one
  stream, and every stream id in use, in an inner map or on a holder, lies below
  \<^verbatim>\<open>nextStreamId\<close>. The transport's \<^verbatim>\<open>_unsubscribe\<close> is the one that \<open>returns\<close>.
\<close>

inductive ps_reachable :: "pubsub \<Rightarrow> bool" where
  p_new: "ps_reachable (PubSub p)"
| p_publish: "ps_reachable ps \<Longrightarrow> ps_reachable (snd (publish channels dat callback (h, ps)))"
| p_subscribe: "ps_reachable ps \<Longrightarrow> ps_reachable (subscribe channel callback ps)"
| p_tick: "ps_reachable ps \<Longrightarrow> ps_reachable (next_tick ps)"
| p_subscribed: "ps_reachable ps \<Longrightarrow> ps_reachable (subscribe_done channel callback err ps)"
| p_close: "ps_reachable ps \<Longrightarrow> ps_reachable (removeStream returns channel st ps)"

definition ps_inv :: "pubsub \<Rightarrow> bool" where
  "ps_inv ps \<longleftrightarrow>
     distinct_keys (streams ps)
     \<and> list_all (\<lambda>cm. snd cm \<noteq> [] \<and> list_all (\<lambda>is. fst is < nextStreamId ps) (snd cm))
          (streams ps)
     \<and> list_all (\<lambda>hm. list_all (\<lambda>is. fst is < nextStreamId ps) (snd hm)) (held ps)"



subsection \<open>Concrete connections and messages\<close>

definition json0 :: types where
  "json0 =
     \<lparr>type_map = (\<lambda>k. if k = ''http://sharejs.org/types/JSONv0'' then Some 0 else None),
      defaultType = 0\<rparr>"

definition init_message :: "jsval obj" where
  "init_message =
     [(''a'', JStr ''init''), (''protocol'', JNum 1),
      (''type'', JStr ''http://sharejs.org/types/JSONv0''), (''id'', JStr ''C7'')]"

text \<open>A connection built on an open socket, one built on a closed socket, and the first
  after the socket has delivered the server's \<^verbatim>\<open>init\<close>.\<close>

definition connecting_example :: connection where
  "connecting_example = Connection \<lparr>sock = 0, readyState = JNum 1\<rparr>"

definition disconnected_example :: connection where
  "disconnected_example = Connection \<lparr>sock = 0, readyState = JNum 3\<rparr>"

definition connected_example :: connection where
  "connected_example =
     socket_onmessage json0 (\<lambda>s. None) (JObj [(''data'', JObj init_message)])
       connecting_example"

definition book :: "nat \<Rightarrow> string \<Rightarrow> jsval \<Rightarrow> doc" where
  "book r i v = \<lparr>ref = r, collection = ''books'', id_doc = i, version = v\<rparr>"

definition bulk_window_example :: connection where
  "bulk_window_example =
     snd (sendSubscribe (book 3 ''id3'' JNull)
       (snd (sendSubscribe (book 2 ''id2'' (JNum 1))
         (snd (sendSubscribe (book 1 ''id1'' (JNum 1)) (startBulk connected_example))))))"

definition bulk_reply :: "jsval obj" where
  "bulk_reply =
     [(''a'', JStr ''bs''), (''c'', JStr ''books''),
      (''data'', JObj [(''id1'', JObj [(''v'', JNum 1)])]),
      (''error'', JObj [(''code'', JNum 4001), (''message'', JStr ''Forbidden'')])]"

definition bulk_reply_ids :: "jsval obj" where
  "bulk_reply_ids =
     [(''a'', JStr ''bu''), (''c'', JStr ''books''), (''b'', JArr [JStr ''id1'']),
      (''error'', JObj [(''code'', JNum 4001), (''message'', JStr ''Forbidden'')])]"

definition single_reply :: "jsval obj" where
  "single_reply =
     [(''a'', JStr ''s''), (''c'', JStr ''books''), (''d'', JStr ''id1''),
      (''error'', JObj [(''code'', JNum 4001), (''message'', JStr ''Forbidden'')])]"

definition room_example :: pubsub where
  "room_example = subscribe_done ''room'' 1 JNull (subscribe ''room'' 1 (PubSub None))"


section \<open>The connection: what the calls leave unchanged\<close>

lemma only_trace_refl: "only_trace c c"
  by (simp add: only_trace_def)

lemma only_trace_trans: "only_trace a b \<Longrightarrow> only_trace b c \<Longrightarrow> only_trace a c"
  by (cases a, cases b, cases c) (simp add: only_trace_def)

lemma only_trace_fields:
  assumes "only_trace c c'"
  shows "collections c' = collections c" "nextQueryId c' = nextQueryId c"
    "queries c' = queries c" "seq c' = seq c" "id_conn c' = id_conn c" "agent c' = agent c"
    "debug c' = debug c" "state c' = state c" "socket c' = socket c" "canSend c' = canSend c"
    "bulk c' = bulk c"
  using assms by (cases c, cases c', simp add: only_trace_def)+

lemma send_eq: "send m c = c\<lparr>trace := trace c @ sends c [m]\<rparr>"
  by (simp add: send_def send_trace_def sends_def emit_def console_def Let_def)

lemma only_trace_send: "only_trace c (send m c)"
  by (simp add: send_eq only_trace_def)

lemma only_trace_send2: "only_trace c (send m (send m' c))"
  by (rule only_trace_trans [OF only_trace_send only_trace_send])

lemma only_trace_sendBulk: "only_trace c (sendBulk a coll vs c)"
proof (cases vs)
  case None
  then show ?thesis by (simp add: sendBulk_def only_trace_refl)
next
  case (Some v)
  obtain ids versions n vid
    where s: "scan_values v ([], [], 0, JUndefined) = (ids, versions, n, vid)"
    by (cases "scan_values v ([], [], 0, JUndefined)") auto
  show ?thesis unfolding sendBulk_def Some option.case s prod.case Let_def
    by (simp add: only_trace_refl only_trace_send only_trace_send2)
qed

lemma only_trace_endBulk_loop: "only_trace c (endBulk_loop b c)"
proof (induction b arbitrary: c)
  case Nil
  show ?case by (simp add: only_trace_refl)
next
  case (Cons x b)
  obtain coll actions where x: "x = (coll, actions)" by (cases x)
  define c1 where "c1 = sendBulk ''f'' coll (map_of actions ''f'') c"
  define c2 where "c2 = sendBulk ''s'' coll (map_of actions ''s'') c1"
  define c3 where "c3 = sendBulk ''u'' coll (map_of actions ''u'') c2"
  have "only_trace c c1" "only_trace c1 c2" "only_trace c2 c3"
    unfolding c1_def c2_def c3_def by (rule only_trace_sendBulk)+
  moreover have "only_trace c3 (endBulk_loop b c3)" by (rule Cons.IH)
  ultimately have "only_trace c (endBulk_loop b c3)"
    using only_trace_trans by blast
  then show ?case by (simp add: x c1_def c2_def c3_def)
qed

lemma notify_queries_eq:
  "notify_queries qs c =
     c\<lparr>trace := trace c @ map (\<lambda>kq. QueryCall (snd kq) ''_onConnectionStateChanged'' []) qs\<rparr>"
  by (induction qs arbitrary: c) auto

lemma notify_docs_eq:
  "notify_docs ds c =
     c\<lparr>trace := trace c @ map (\<lambda>kd. DocCall (snd kd) ''_onConnectionStateChanged'' []) ds\<rparr>"
  by (induction ds arbitrary: c) auto

lemma notify_collections_eq:
  "notify_collections cs c =
     c\<lparr>trace := trace c @
        concat (map (\<lambda>cd. map (\<lambda>kd. DocCall (snd kd) ''_onConnectionStateChanged'' []) (snd cd)) cs)\<rparr>"
  by (induction cs arbitrary: c) (auto simp: notify_docs_eq)

lemma endBulk_fields:
  "collections (endBulk c) = collections c" "nextQueryId (endBulk c) = nextQueryId c"
  "queries (endBulk c) = queries c" "seq (endBulk c) = seq c"
  "id_conn (endBulk c) = id_conn c" "agent (endBulk c) = agent c"
  "debug (endBulk c) = debug c" "state (endBulk c) = state c"
  "socket (endBulk c) = socket c" "canSend (endBulk c) = canSend c"
  "bulk (endBulk c) = None"
  by (cases "bulk c"; simp add: endBulk_def only_trace_fields [OF only_trace_endBulk_loop])+

text \<open>The fields of the connection after a transition that \<^verbatim>\<open>_setState\<close> accepts.\<close>

lemma setState_accepted:
  assumes "state c \<noteq> newState" and "\<not> illegal (state c) newState"
  shows "state (setState newState reason c) = newState"
    and "canSend (setState newState reason c) = (newState = ''connected'')"
    and "collections (setState newState reason c) = collections c"
    and "queries (setState newState reason c) = queries c"
    and "nextQueryId (setState newState reason c) = nextQueryId c"
    and "socket (setState newState reason c) = socket c"
    and "debug (setState newState reason c) = debug c"
    and "bulk (setState newState reason c) = None"
    and "seq (setState newState reason c) =
           (if newState = ''disconnected'' \<or> newState = ''stopped'' \<or> newState = ''closed''
            then 1 else seq c)"
    and "id_conn (setState newState reason c) =
           (if newState = ''disconnected'' \<or> newState = ''stopped'' \<or> newState = ''closed''
            then JNull else id_conn c)"
    and "agent (setState newState reason c) =
           (if newState = ''disconnected'' \<or> newState = ''stopped'' \<or> newState = ''closed''
            then None else agent c)"
  using assms
  by (simp_all add: setState_def Let_def emit_def endBulk_fields notify_queries_eq
        notify_collections_eq startBulk_def reset_def)

lemma setState_connected_from_connecting:
  assumes "state c = ''connecting''"
  shows "state (setState ''connected'' reason c) = ''connected''"
    and "canSend (setState ''connected'' reason c)"
    and "id_conn (setState ''connected'' reason c) = id_conn c"
proof -
  have n: "state c \<noteq> ''connected''" and l: "\<not> illegal (state c) ''connected''"
    using assms by (simp_all add: illegal_def)
  from setState_accepted [OF n l] show "state (setState ''connected'' reason c) = ''connected''"
    and "canSend (setState ''connected'' reason c)"
    and "id_conn (setState ''connected'' reason c) = id_conn c"
    by simp_all
qed

subsection \<open>The examples, evaluated\<close>

lemma connecting_example_eq:
  "connecting_example =
     \<lparr>collections = [], nextQueryId = 1, queries = [], seq = 1, id_conn = JNull,
      agent = None, debug = False, state = ''connecting'',
      socket = Some \<lparr>sock = 0, readyState = JNum 1\<rparr>, canSend = False, bulk = None,
      trace = []\<rparr>"
  by (simp add: connecting_example_def Connection_def bindToSocket_def connectionState_def
        setState_def)

lemma disconnected_example_eq:
  "disconnected_example =
     \<lparr>collections = [], nextQueryId = 1, queries = [], seq = 1, id_conn = JNull,
      agent = None, debug = False, state = ''disconnected'',
      socket = Some \<lparr>sock = 0, readyState = JNum 3\<rparr>, canSend = False, bulk = None,
      trace = []\<rparr>"
  by (simp add: disconnected_example_def Connection_def bindToSocket_def connectionState_def
        setState_def)

lemma connected_example_eq:
  "connected_example =
     \<lparr>collections = [], nextQueryId = 1, queries = [], seq = 1, id_conn = JStr ''C7'',
      agent = None, debug = False, state = ''connected'',
      socket = Some \<lparr>sock = 0, readyState = JNum 1\<rparr>, canSend = True, bulk = None,
      trace = [Emit ''receive'' [Val (JObj [(''data'', JObj init_message)])],
               Emit ''connected'' [Val JUndefined],
               Emit ''state'' [Val (JStr ''connected''), Val JUndefined]]\<rparr>"
  by (simp add: connected_example_def connecting_example_eq socket_onmessage_def prop_of_def
        read_def init_message_def handleMessage_def json0_def is_string_def setState_def
        illegal_def emit_def startBulk_def endBulk_def Let_def)


section \<open>The connection state machine\<close>

text \<open>
  Claim C10. For every call of \<^verbatim>\<open>_setState(newState, reason)\<close> in which \<open>newState\<close> is the
  current state, the call returns at once and changes nothing: the connection afterwards
  is the connection before, trace included, so that nothing is reset, no document or query
  is notified, and no state-named, \<^verbatim>\<open>state\<close> or \<^verbatim>\<open>error\<close> event is emitted.
\<close>

theorem setState_same_state_noop:
  "state c = newState \<Longrightarrow>
     setState newState reason c = c \<and> trace (setState newState reason c) = trace c"
  by (simp add: setState_def)

theorem setState_same_state_noop_witness:
  "state disconnected_example = ''disconnected''
   \<and> setState ''disconnected'' (JStr ''Request failed'') disconnected_example
       = disconnected_example
   \<and> socket_onclose (JStr ''Request failed'') disconnected_example = disconnected_example"
  using setState_same_state_noop
          [of disconnected_example "''disconnected''" "JStr ''Request failed''"]
  by (simp add: disconnected_example_eq socket_onclose_def)

text \<open>
  Claim C3, as amended. For every call of \<^verbatim>\<open>_setState\<close> that requests an illegal transition
  (to \<^verbatim>\<open>connecting\<close> from a state other than \<^verbatim>\<open>disconnected\<close>, \<^verbatim>\<open>stopped\<close> or
  \<^verbatim>\<open>closed\<close>, or to \<^verbatim>\<open>connected\<close> from a state other than \<^verbatim>\<open>connecting\<close>) and whose
  new state differs from the current state, the connection is left as it was (state,
  \<^verbatim>\<open>canSend\<close>, \<^verbatim>\<open>seq\<close>, \<^verbatim>\<open>id\<close> and agent included), and the only thing emitted is one
  \<^verbatim>\<open>error\<close> event carrying the structured error with code 5007 and the message
  \<^verbatim>\<open>Cannot transition directly from <old> to <new>\<close>.
\<close>

theorem setState_illegal_transition:
  assumes "illegal (state c) newState" and "state c \<noteq> newState"
  shows "setState newState reason c =
           c\<lparr>trace := trace c @
              [Emit ''error'' [Err (ShareDBError 5007
                 (''Cannot transition directly from '' @ state c @ '' to '' @ newState))]]\<rparr>"
  using assms by (simp add: setState_def emit_def)

theorem setState_illegal_transition_witness:
  "illegal (state connected_example) ''connecting''
   \<and> state connected_example \<noteq> ''connecting''
   \<and> setState ''connecting'' JUndefined connected_example =
       connected_example\<lparr>trace := trace connected_example @
         [Emit ''error'' [Err (ShareDBError 5007
            ''Cannot transition directly from connected to connecting'')]]\<rparr>"
  using setState_illegal_transition [of connected_example "''connecting''" JUndefined]
  by (simp add: connected_example_eq illegal_def)

text \<open>
  The claim as it was stated counts the request for the state the connection is already in
  among the illegal transitions: \<^verbatim>\<open>connecting\<close> is requested from \<^verbatim>\<open>connecting\<close>, a state
  other than \<^verbatim>\<open>disconnected\<close>, \<^verbatim>\<open>stopped\<close> and \<^verbatim>\<open>closed\<close>. This is what the on-open
  callback of a socket does that was bound while it was opening. No error is emitted.
\<close>

theorem setState_same_state_not_rejected:
  "illegal (state connecting_example) ''connecting''
   \<and> trace (setState ''connecting'' JUndefined connecting_example) = []
   \<and> trace (socket_onopen connecting_example) = []"
  by (simp add: connecting_example_eq illegal_def setState_def socket_onopen_def)

text \<open>
  Claim C4. For every accepted transition into \<^verbatim>\<open>disconnected\<close>, \<^verbatim>\<open>closed\<close> or
  \<^verbatim>\<open>stopped\<close> (the new state differs from the current one; such a transition is never
  illegal), afterwards \<^verbatim>\<open>seq\<close> is 1, the client id is \<^verbatim>\<open>null\<close> and the agent reference is
  \<^verbatim>\<open>null\<close>, while the document registry and the query registry hold exactly the entries
  they held before.
\<close>

theorem setState_reset_keeps_registries:
  assumes "newState = ''disconnected'' \<or> newState = ''closed'' \<or> newState = ''stopped''"
    and "state c \<noteq> newState"
  shows "state (setState newState reason c) = newState
       \<and> seq (setState newState reason c) = 1
       \<and> id_conn (setState newState reason c) = JNull
       \<and> agent (setState newState reason c) = None
       \<and> collections (setState newState reason c) = collections c
       \<and> queries (setState newState reason c) = queries c"
proof -
  have "\<not> illegal (state c) newState"
    using assms(1) by (auto simp: illegal_def)
  note acc = setState_accepted [OF assms(2) this]
  from assms(1)
  have r: "(newState = ''disconnected'' \<or> newState = ''stopped'' \<or> newState = ''closed'') = True"
    by blast
  show ?thesis
    by (simp only: acc r if_True simp_thms)
qed

theorem setState_reset_keeps_registries_witness:
  "state (addDoc (book 1 ''id1'' (JNum 1)) connected_example) \<noteq> ''disconnected''
   \<and> id_conn (addDoc (book 1 ''id1'' (JNum 1)) connected_example) = JStr ''C7''
   \<and> state (socket_onclose (JStr ''Request failed'')
              (addDoc (book 1 ''id1'' (JNum 1)) connected_example)) = ''disconnected''
   \<and> seq (socket_onclose (JStr ''Request failed'')
              (addDoc (book 1 ''id1'' (JNum 1)) connected_example)) = 1
   \<and> id_conn (socket_onclose (JStr ''Request failed'')
              (addDoc (book 1 ''id1'' (JNum 1)) connected_example)) = JNull
   \<and> collections (socket_onclose (JStr ''Request failed'')
              (addDoc (book 1 ''id1'' (JNum 1)) connected_example)) = [(''books'', [(''id1'', 1)])]"
  using setState_reset_keeps_registries
          [of "''disconnected''" "addDoc (book 1 ''id1'' (JNum 1)) connected_example"
              "JStr ''Request failed''"]
  by (simp add: connected_example_eq addDoc_def book_def socket_onclose_def)


section \<open>The bulk batching layer\<close>

lemma update_fresh: "k \<notin> fst ` set al \<Longrightarrow> AList.update k v al = al @ [(k, v)]"
  by (induction al) auto

text \<open>
  The loop of \<^verbatim>\<open>_sendBulk\<close> splits the entries into the two groups, keeps their order,
  counts the versioned ones and remembers the last versioned id.
\<close>

lemma scan_values_eq:
  "distinct (map fst vs) \<Longrightarrow> fst ` set vs \<inter> fst ` set versions = {} \<Longrightarrow>
   scan_values vs (ids, versions, n, vid) =
     (ids @ version_absent vs, versions @ versioned vs, n + int (length (versioned vs)),
      (if versioned vs = [] then vid else JStr (fst (last (versioned vs)))))"
proof (induction vs arbitrary: ids versions n vid)
  case Nil
  show ?case by (simp add: version_absent_def versioned_def)
next
  case (Cons kv vs)
  obtain k v where kv: "kv = (k, v)" by (cases kv)
  show ?case
  proof (cases "nullish v")
    case True
    from Cons.prems have "distinct (map fst vs)" "fst ` set vs \<inter> fst ` set versions = {}"
      by auto
    from Cons.IH [OF this] True show ?thesis
      by (simp add: kv version_absent_def versioned_def)
  next
    case False
    from Cons.prems have k: "k \<notin> fst ` set versions"
      by (auto simp: kv)
    from Cons.prems have d: "distinct (map fst vs)"
      and i: "fst ` set vs \<inter> fst ` set (versions @ [(k, v)]) = {}"
      by (auto simp: kv)
    from Cons.IH [OF d i] False show ?thesis
      by (simp add: kv update_fresh [OF k] version_absent_def versioned_def)
  qed
qed

lemma sends_append: "sends c (xs @ ys) = sends c xs @ sends c ys"
  by (simp add: sends_def)

lemma sends_Nil: "sends c [] = []"
  by (simp add: sends_def)

lemma sends_after_trace: "sends (c\<lparr>trace := t\<rparr>) xs = sends c xs"
  by (simp add: sends_def)

lemma read_single: "read [(d, v)] d = v"
  by (simp add: read_def)

lemma sendBulk_absent:
  "(if length ids = 1
    then send (JObj [(''a'', JStr action), (''c'', JStr coll), (''d'', JStr (hd ids))]) c
    else if length ids \<noteq> 0
    then send (JObj [(''a'', JStr (''b'' @ action)), (''c'', JStr coll),
                     (''b'', JArr (map JStr ids))]) c
    else c)
   = c\<lparr>trace := trace c @ sends c (absent_frames action coll ids)\<rparr>"
proof (cases "(action, coll, ids)" rule: absent_frames.cases)
  case (1 a k)
  then show ?thesis by (simp add: sends_Nil)
next
  case (2 a k d)
  then show ?thesis by (simp add: send_eq)
next
  case (3 a k d e r)
  then show ?thesis by (simp add: send_eq)
qed

lemma sendBulk_versioned:
  assumes "vid = (if V = [] then JUndefined else JStr (fst (last V)))"
  shows
  "(if int (length V) = 1
    then send (JObj [(''a'', JStr action), (''c'', JStr coll), (''d'', vid),
                     (''v'', read V (to_key vid))]) c
    else if int (length V) \<noteq> 0
    then send (JObj [(''a'', JStr (''b'' @ action)), (''c'', JStr coll), (''b'', JObj V)]) c
    else c)
   = c\<lparr>trace := trace c @ sends c (versioned_frames action coll V)\<rparr>"
proof (cases "(action, coll, V)" rule: versioned_frames.cases)
  case (1 a k)
  then show ?thesis by (simp add: sends_Nil)
next
  case (2 a k d v)
  then show ?thesis using assms by (simp add: send_eq read_single)
next
  case (3 a k d e r)
  then show ?thesis by (simp add: send_eq)
qed

lemma sendBulk_trace:
  assumes "distinct_keys vs"
  shows "sendBulk action coll (Some vs) c =
           c\<lparr>trace := trace c @ sends c (pair_frames action coll (Some vs))\<rparr>"
proof -
  define vid
    where "vid = (if versioned vs = [] then JUndefined else JStr (fst (last (versioned vs))))"
  have s: "scan_values vs ([], [], 0, JUndefined) =
             (version_absent vs, versioned vs, int (length (versioned vs)), vid)"
    using scan_values_eq [of vs "[]" "[]" 0 JUndefined] assms
    by (simp add: distinct_keys_def vid_def)
  show ?thesis
    unfolding sendBulk_def option.case s prod.case Let_def
    by (simp only: sendBulk_absent sendBulk_versioned [OF vid_def] pair_frames_def option.case
          sends_append sends_after_trace)
       simp
qed

lemma sendBulk_pair:
  assumes "\<And>vs. vals = Some vs \<Longrightarrow> distinct_keys vs"
  shows "sendBulk action coll vals c =
           c\<lparr>trace := trace c @ sends c (pair_frames action coll vals)\<rparr>"
proof (cases vals)
  case None
  then show ?thesis by (simp add: sendBulk_def pair_frames_def sends_Nil)
next
  case (Some vs)
  with assms have "distinct_keys vs" by simp
  from sendBulk_trace [OF this] Some show ?thesis by simp
qed

lemma wf_bulk_Cons:
  "wf_bulk ((coll, actions) # b) \<Longrightarrow> wf_bulk b"
  "wf_bulk ((coll, actions) # b) \<Longrightarrow> list_all (\<lambda>av. distinct_keys (snd av)) actions"
  by (simp_all add: wf_bulk_def distinct_keys_def)

lemma wf_actions_values:
  assumes "list_all (\<lambda>av. distinct_keys (snd av)) actions" and "map_of actions a = Some vs"
  shows "distinct_keys vs"
proof -
  from assms(2) have "(a, vs) \<in> set actions" by (rule map_of_SomeD)
  with assms(1) show ?thesis by (simp add: list_all_iff split_beta) (metis snd_conv)
qed

lemma endBulk_loop_trace:
  assumes "wf_bulk b"
  shows "endBulk_loop b c = c\<lparr>trace := trace c @ sends c (bulk_frames b)\<rparr>"
  using assms
proof (induction b arbitrary: c)
  case Nil
  show ?case by (simp add: sends_Nil)
next
  case (Cons x b)
  obtain coll actions where x: "x = (coll, actions)" by (cases x)
  from Cons.prems have wb: "wf_bulk b"
    and wa: "list_all (\<lambda>av. distinct_keys (snd av)) actions"
    unfolding x by (rule wf_bulk_Cons)+
  note d = wf_actions_values [OF wa]
  have f: "sendBulk ''f'' coll (map_of actions ''f'') c =
             c\<lparr>trace := trace c @ sends c (pair_frames ''f'' coll (map_of actions ''f''))\<rparr>" for c
    by (rule sendBulk_pair) (rule d)
  have s: "sendBulk ''s'' coll (map_of actions ''s'') c =
             c\<lparr>trace := trace c @ sends c (pair_frames ''s'' coll (map_of actions ''s''))\<rparr>" for c
    by (rule sendBulk_pair) (rule d)
  have u: "sendBulk ''u'' coll (map_of actions ''u'') c =
             c\<lparr>trace := trace c @ sends c (pair_frames ''u'' coll (map_of actions ''u''))\<rparr>" for c
    by (rule sendBulk_pair) (rule d)
  show ?case
    unfolding x endBulk_loop.simps bulk_frames.simps
    by (simp only: f s u Cons.IH [OF wb] sends_append sends_after_trace) simp
qed

lemma absent_frames_length:
  "length (absent_frames action coll ids) = (if ids = [] then 0 else 1)"
  by (cases "(action, coll, ids)" rule: absent_frames.cases) simp_all

lemma versioned_frames_length:
  "length (versioned_frames action coll V) = (if V = [] then 0 else 1)"
  by (cases "(action, coll, V)" rule: versioned_frames.cases) simp_all

lemma pair_frames_length:
  "length (pair_frames action coll vals) =
     (case vals of
        None \<Rightarrow> 0
      | Some vs \<Rightarrow> (if version_absent vs = [] then 0 else 1)
                   + (if versioned vs = [] then 0 else 1))"
  by (simp add: pair_frames_def absent_frames_length versioned_frames_length split: option.split)

lemma pair_frames_bound: "length (pair_frames action coll vals) \<le> 2"
  by (simp add: pair_frames_length split: option.split)

lemma pair_frames_two:
  assumes "length (pair_frames action coll vals) = 2"
  shows "\<exists>vs. vals = Some vs \<and> version_absent vs \<noteq> [] \<and> versioned vs \<noteq> []"
  using assms by (simp add: pair_frames_length split: option.splits if_splits)

text \<open>
  Claim C5. For every bulk window and every pair of a collection and an action accumulated
  in it, \<^verbatim>\<open>endBulk\<close> emits between 0 and 2 frames for the pair: for each of the two groups
  (entries without a version, entries with one) the single-form frame when the group has
  exactly one entry, the bulk-form frame (the action prefixed with \<^verbatim>\<open>b\<close>, carrying the
  array of ids or the mapping from id to version) when it has more, and nothing when it is
  empty; two frames only when both groups are non-empty. The frames are sent collection by
  collection, for \<^verbatim>\<open>f\<close>, \<^verbatim>\<open>s\<close> and \<^verbatim>\<open>u\<close> in this order, and the accumulator is gone
  afterwards.
\<close>

theorem endBulk_frames:
  assumes "bulk c = Some b" and "wf_bulk b"
  shows "trace (endBulk c) = trace c @ sends c (bulk_frames b)
       \<and> bulk (endBulk c) = None
       \<and> (\<forall>action coll vals.
             length (pair_frames action coll vals) \<le> 2
             \<and> (length (pair_frames action coll vals) = 2 \<longrightarrow>
                  (\<exists>vs. vals = Some vs \<and> version_absent vs \<noteq> [] \<and> versioned vs \<noteq> [])))"
proof -
  have "trace (endBulk c) = trace c @ sends c (bulk_frames b)"
    by (simp add: endBulk_def assms(1) endBulk_loop_trace [OF assms(2)])
  moreover have "bulk (endBulk c) = None"
    by (rule endBulk_fields)
  ultimately show ?thesis
    using pair_frames_bound pair_frames_two by blast
qed

lemma bulk_window_example_bulk:
  "bulk bulk_window_example =
     Some [(''books'', [(''s'', [(''id1'', JNum 1), (''id2'', JNum 1), (''id3'', JNull)])])]"
  by (simp add: bulk_window_example_def connected_example_eq sendSubscribe_def sendAction_def
        addDoc_def startBulk_def book_def Let_def)

lemma bulk_window_example_trace: "trace bulk_window_example = trace connected_example"
  by (simp add: bulk_window_example_def connected_example_eq sendSubscribe_def sendAction_def
        addDoc_def startBulk_def book_def Let_def)

lemma bulk_window_example_socket:
  "debug bulk_window_example = False"
  "socket bulk_window_example = Some \<lparr>sock = 0, readyState = JNum 1\<rparr>"
  by (simp_all add: bulk_window_example_def connected_example_eq sendSubscribe_def
        sendAction_def addDoc_def startBulk_def book_def Let_def)

theorem endBulk_frames_witness:
  "bulk bulk_window_example =
     Some [(''books'', [(''s'', [(''id1'', JNum 1), (''id2'', JNum 1), (''id3'', JNull)])])]
   \<and> wf_bulk [(''books'', [(''s'', [(''id1'', JNum 1), (''id2'', JNum 1), (''id3'', JNull)])])]
   \<and> trace (endBulk bulk_window_example) =
       trace connected_example
       @ [Emit ''send'' [Val (JObj [(''a'', JStr ''s''), (''c'', JStr ''books''),
                                     (''d'', JStr ''id3'')])],
          SocketSend (Some 0) (JObj [(''a'', JStr ''s''), (''c'', JStr ''books''),
                                     (''d'', JStr ''id3'')]),
          Emit ''send'' [Val (JObj [(''a'', JStr ''bs''), (''c'', JStr ''books''),
                                     (''b'', JObj [(''id1'', JNum 1), (''id2'', JNum 1)])])],
          SocketSend (Some 0) (JObj [(''a'', JStr ''bs''), (''c'', JStr ''books''),
                                     (''b'', JObj [(''id1'', JNum 1), (''id2'', JNum 1)])])]"
proof -
  have w: "wf_bulk [(''books'', [(''s'', [(''id1'', JNum 1), (''id2'', JNum 1), (''id3'', JNull)])])]"
    by (simp add: wf_bulk_def distinct_keys_def)
  from endBulk_frames [OF bulk_window_example_bulk w]
  have "trace (endBulk bulk_window_example) =
          trace bulk_window_example
          @ sends bulk_window_example
              (bulk_frames [(''books'', [(''s'', [(''id1'', JNum 1), (''id2'', JNum 1),
                                                  (''id3'', JNull)])])])"
    by (rule conjunct1)
  then have "trace (endBulk bulk_window_example) =
       trace connected_example
       @ [Emit ''send'' [Val (JObj [(''a'', JStr ''s''), (''c'', JStr ''books''),
                                     (''d'', JStr ''id3'')])],
          SocketSend (Some 0) (JObj [(''a'', JStr ''s''), (''c'', JStr ''books''),
                                     (''d'', JStr ''id3'')]),
          Emit ''send'' [Val (JObj [(''a'', JStr ''bs''), (''c'', JStr ''books''),
                                     (''b'', JObj [(''id1'', JNum 1), (''id2'', JNum 1)])])],
          SocketSend (Some 0) (JObj [(''a'', JStr ''bs''), (''c'', JStr ''books''),
                                     (''b'', JObj [(''id1'', JNum 1), (''id2'', JNum 1)])])]"
    by (simp add: bulk_window_example_trace bulk_window_example_socket sends_def send_trace_def
          pair_frames_def version_absent_def versioned_def)
  with w bulk_window_example_bulk show ?thesis
    by (simp only: simp_thms)
qed


section \<open>The inbound dispatcher\<close>

lemma read_delete: "k \<noteq> k' \<Longrightarrow> read (AList.delete k' m) k = read m k"
  by (simp add: read_def delete_conv)

lemma handleMessage_init_eq:
  assumes "read message ''a'' = JStr ''init''"
  shows "handleMessage T message c =
     (if read message ''protocol'' \<noteq> JNum 1
      then emit ''error'' [Err (ShareDBError 4019 ''Invalid protocol version'')] c
      else if type_map T (to_key (read message ''type'')) \<noteq> Some (defaultType T)
      then emit ''error'' [Err (ShareDBError 4020 ''Invalid default type'')] c
      else if \<not> is_string (read message ''id'')
      then emit ''error'' [Err (ShareDBError 4021 ''Invalid client id'')] c
      else setState ''connected'' JUndefined (c\<lparr>id_conn := read message ''id''\<rparr>))"
proof (cases "truthy (read message ''error'')")
  case True
  with assms show ?thesis
    unfolding handleMessage_def Let_def by (simp add: read_delete)
next
  case False
  with assms show ?thesis
    unfolding handleMessage_def Let_def by simp
qed

text \<open>
  Claim C6, as amended. For every inbound \<^verbatim>\<open>init\<close> message: if the protocol is not 1, the
  dispatcher emits an error with code 4019 and nothing else changes; else if the default
  type the server declares is not the local default type, an error with code 4020 and
  nothing else changes; else if the id is not a string, an error with code 4021 and nothing
  else changes; otherwise it sets the client id to the id of the message and requests the
  state \<^verbatim>\<open>connected\<close>, which is the state afterwards when the connection is
  \<^verbatim>\<open>connecting\<close> (or already \<^verbatim>\<open>connected\<close>). From any other state the request is an
  illegal transition: the id is set, the state stays, and the error 5007 is emitted.
\<close>

theorem handleMessage_init:
  assumes "read message ''a'' = JStr ''init''"
  shows
    "(read message ''protocol'' \<noteq> JNum 1 \<longrightarrow>
        handleMessage T message c =
          c\<lparr>trace := trace c @
             [Emit ''error'' [Err (ShareDBError 4019 ''Invalid protocol version'')]]\<rparr>)
   \<and> (read message ''protocol'' = JNum 1
        \<and> type_map T (to_key (read message ''type'')) \<noteq> Some (defaultType T) \<longrightarrow>
        handleMessage T message c =
          c\<lparr>trace := trace c @
             [Emit ''error'' [Err (ShareDBError 4020 ''Invalid default type'')]]\<rparr>)
   \<and> (read message ''protocol'' = JNum 1
        \<and> type_map T (to_key (read message ''type'')) = Some (defaultType T)
        \<and> \<not> is_string (read message ''id'') \<longrightarrow>
        handleMessage T message c =
          c\<lparr>trace := trace c @
             [Emit ''error'' [Err (ShareDBError 4021 ''Invalid client id'')]]\<rparr>)
   \<and> (read message ''protocol'' = JNum 1
        \<and> type_map T (to_key (read message ''type'')) = Some (defaultType T)
        \<and> is_string (read message ''id'') \<longrightarrow>
        id_conn (handleMessage T message c) = read message ''id''
        \<and> (state c = ''connecting'' \<or> state c = ''connected'' \<longrightarrow>
               state (handleMessage T message c) = ''connected'')
        \<and> (state c = ''connecting'' \<longrightarrow> canSend (handleMessage T message c))
        \<and> (state c \<noteq> ''connecting'' \<and> state c \<noteq> ''connected'' \<longrightarrow>
               handleMessage T message c =
                 c\<lparr>id_conn := read message ''id'',
                   trace := trace c @
                     [Emit ''error'' [Err (ShareDBError 5007
                        (''Cannot transition directly from '' @ state c @ '' to connected''))]]\<rparr>))"
proof -
  note e = handleMessage_init_eq [OF assms, of T c]
  let ?c = "c\<lparr>id_conn := read message ''id''\<rparr>"
  have ok: "id_conn (setState ''connected'' JUndefined ?c) = read message ''id''"
  proof (cases "state c = ''connected''")
    case True
    then show ?thesis by (simp add: setState_def)
  next
    case False
    show ?thesis
    proof (cases "state c = ''connecting''")
      case True
      then show ?thesis using setState_connected_from_connecting(3) [of ?c] by simp
    next
      case False
      with \<open>state c \<noteq> ''connected''\<close> show ?thesis
        by (simp add: setState_def illegal_def emit_def)
    qed
  qed
  have st: "state (setState ''connected'' JUndefined ?c) = ''connected''"
    if "state c = ''connecting'' \<or> state c = ''connected''"
    using that setState_connected_from_connecting(1) [of ?c] by (auto simp: setState_def)
  have cs: "canSend (setState ''connected'' JUndefined ?c)" if "state c = ''connecting''"
    using that setState_connected_from_connecting(2) [of ?c] by simp
  have bad: "setState ''connected'' JUndefined ?c =
      c\<lparr>id_conn := read message ''id'',
        trace := trace c @
          [Emit ''error'' [Err (ShareDBError 5007
             (''Cannot transition directly from '' @ state c @ '' to connected''))]]\<rparr>"
    if "state c \<noteq> ''connecting''" "state c \<noteq> ''connected''"
    using that by (simp add: setState_def illegal_def emit_def)
  show ?thesis
    by (simp add: e emit_def ok st cs bad)
qed

theorem handleMessage_init_witness:
  "read init_message ''a'' = JStr ''init''
   \<and> state connecting_example = ''connecting''
   \<and> id_conn (handleMessage json0 init_message connecting_example) = JStr ''C7''
   \<and> state (handleMessage json0 init_message connecting_example) = ''connected''
   \<and> canSend (handleMessage json0 init_message connecting_example)
   \<and> handleMessage json0 ((''a'', JStr ''init'') # (''protocol'', JNum 2) # tl (tl init_message))
         connecting_example =
       connecting_example\<lparr>trace :=
         [Emit ''error'' [Err (ShareDBError 4019 ''Invalid protocol version'')]]\<rparr>"
  using handleMessage_init [of init_message json0 connecting_example]
    handleMessage_init
      [of "(''a'', JStr ''init'') # (''protocol'', JNum 2) # tl (tl init_message)" json0
          connecting_example]
  by (simp add: init_message_def read_def json0_def is_string_def connecting_example_eq)

text \<open>
  The claim as it was stated has every well-formed \<^verbatim>\<open>init\<close> end in the state
  \<^verbatim>\<open>connected\<close>. On a connection that is \<^verbatim>\<open>disconnected\<close> the message passes the three
  checks, and the state stays \<^verbatim>\<open>disconnected\<close>.
\<close>

theorem init_while_disconnected:
  "read init_message ''a'' = JStr ''init''
   \<and> read init_message ''protocol'' = JNum 1
   \<and> type_map json0 (to_key (read init_message ''type'')) = Some (defaultType json0)
   \<and> is_string (read init_message ''id'')
   \<and> state disconnected_example = ''disconnected''
   \<and> state (handleMessage json0 init_message disconnected_example) = ''disconnected''
   \<and> trace (handleMessage json0 init_message disconnected_example) =
       [Emit ''error'' [Err (ShareDBError 5007
          ''Cannot transition directly from disconnected to connected'')]]"
  by (simp add: init_message_def read_def json0_def is_string_def disconnected_example_eq
        handleMessage_def setState_def illegal_def emit_def Let_def)

text \<open>
  Claim C1. For a bulk reply (\<^verbatim>\<open>bf\<close>, \<^verbatim>\<open>bs\<close>, \<^verbatim>\<open>bu\<close>) that carries an error envelope,
  the message-level error is to reach the handler of each existing document. The code
  deletes \<^verbatim>\<open>message.error\<close> before the switch and \<^verbatim>\<open>_handleBulkMessage\<close> then reads
  \<^verbatim>\<open>message.error\<close> again: the handler is called with \<^verbatim>\<open>undefined\<close> in the place of the
  error. The reply to a single subscribe, with the same envelope, hands the wrapped error
  to the handler.
\<close>

theorem bulk_reply_error_not_forwarded:
  "truthy (read bulk_reply ''error'')
   \<and> getExisting ''books'' ''id1'' (addDoc (book 1 ''id1'' JNull) connecting_example) = Some 1
   \<and> trace (handleMessage json0 bulk_reply (addDoc (book 1 ''id1'' JNull) connecting_example)) =
       [DocCall 1 ''_handleSubscribe'' [Val JUndefined, Val (JObj [(''v'', JNum 1)])]]
   \<and> trace (handleMessage json0 bulk_reply_ids (addDoc (book 1 ''id1'' JNull) connecting_example)) =
       [DocCall 1 ''_handleUnsubscribe'' [Val JUndefined]]
   \<and> trace (handleMessage json0 single_reply (addDoc (book 1 ''id1'' JNull) connecting_example)) =
       [DocCall 1 ''_handleSubscribe''
          [Err (Error (JStr ''Forbidden'') (JNum 4001)
                  [(''a'', JStr ''s''), (''c'', JStr ''books''), (''d'', JStr ''id1'')]),
           Val JUndefined]]"
  by (simp add: bulk_reply_def bulk_reply_ids_def single_reply_def read_def prop_of_def
        connecting_example_eq
        addDoc_def book_def getExisting_def handleMessage_def handleBulkMessage_def
        forward_def Let_def)

text \<open>
  Claim C2. \<^verbatim>\<open>canSend\<close> is to be true if and only if the state is \<^verbatim>\<open>connected\<close>, as the
  comment in \<^verbatim>\<open>bindToSocket\<close> says. A connection that is \<^verbatim>\<open>connected\<close> and is bound to
  a socket that is opening or open keeps its state, because the transition to
  \<^verbatim>\<open>connecting\<close> is rejected, and \<^verbatim>\<open>bindToSocket\<close> sets \<^verbatim>\<open>canSend\<close> to false all the
  same.
\<close>

theorem canSend_false_while_connected:
  "reachable json0 (bindToSocket \<lparr>sock = 1, readyState = JNum 1\<rparr> connected_example)
   \<and> (state connected_example = ''connected''
      \<and> canSend connected_example
      \<and> state (bindToSocket \<lparr>sock = 1, readyState = JNum 1\<rparr> connected_example) = ''connected''
      \<and> \<not> canSend (bindToSocket \<lparr>sock = 1, readyState = JNum 1\<rparr> connected_example)
      \<and> trace (bindToSocket \<lparr>sock = 1, readyState = JNum 1\<rparr> connected_example) =
          trace connected_example
          @ [SocketClose 0, SocketUnbind 0,
             Emit ''error'' [Err (ShareDBError 5007
                ''Cannot transition directly from connected to connecting'')]])"
proof (rule conjI)
  show "reachable json0 (bindToSocket \<lparr>sock = 1, readyState = JNum 1\<rparr> connected_example)"
    unfolding connected_example_def connecting_example_def
    by (intro reachable.intros)
next
  show "state connected_example = ''connected''
      \<and> canSend connected_example
      \<and> state (bindToSocket \<lparr>sock = 1, readyState = JNum 1\<rparr> connected_example) = ''connected''
      \<and> \<not> canSend (bindToSocket \<lparr>sock = 1, readyState = JNum 1\<rparr> connected_example)
      \<and> trace (bindToSocket \<lparr>sock = 1, readyState = JNum 1\<rparr> connected_example) =
          trace connected_example
          @ [SocketClose 0, SocketUnbind 0,
             Emit ''error'' [Err (ShareDBError 5007
                ''Cannot transition directly from connected to connecting'')]]"
    by (simp add: connected_example_eq bindToSocket_def connectionState_def setState_def
          illegal_def emit_def Let_def)
qed


text \<open>
  On a bulk reply the error envelope has no effect at all: the reply is handled as the
  same reply without the envelope.
\<close>

lemma read_deleted: "read (AList.delete k m) k = JUndefined"
  by (simp add: read_def delete_conv)

lemma bulk_reply_ignores_envelope:
  assumes "truthy (read message ''error'')"
    and "read message ''a'' = JStr ''bf'' \<or> read message ''a'' = JStr ''bs''
         \<or> read message ''a'' = JStr ''bu''"
  shows "handleMessage T message c = handleMessage T (AList.delete ''error'' message) c"
  using assms(2)
proof (elim disjE)
  assume "read message ''a'' = JStr ''bf''"
  then show ?thesis
    unfolding handleMessage_def Let_def
    by (simp add: assms(1) read_delete read_deleted delete_idem)
next
  assume "read message ''a'' = JStr ''bs''"
  then show ?thesis
    unfolding handleMessage_def Let_def
    by (simp add: assms(1) read_delete read_deleted delete_idem)
next
  assume "read message ''a'' = JStr ''bu''"
  then show ?thesis
    unfolding handleMessage_def Let_def
    by (simp add: assms(1) read_delete read_deleted delete_idem)
qed


section \<open>Invariants of the connection\<close>

lemma list_all_update:
  "list_all P al \<Longrightarrow> P (k, v) \<Longrightarrow> list_all P (AList.update k v al)"
  by (induction al) auto

lemma list_all_map_of:
  "list_all P al \<Longrightarrow> map_of al k = Some v \<Longrightarrow> P (k, v)"
  by (auto simp: list_all_iff dest: map_of_SomeD)

lemma distinct_keys_update: "distinct_keys al \<Longrightarrow> distinct_keys (AList.update k v al)"
  by (simp add: distinct_keys_def distinct_update)

lemma distinct_keys_Nil: "distinct_keys []"
  by (simp add: distinct_keys_def)

text \<open>Recording an action in a well-formed accumulator leaves it well formed.\<close>

lemma wf_bulk_record:
  assumes "wf_bulk b"
  shows "wf_bulk
           (AList.update coll
              (AList.update action
                 (AList.update ident ver
                    (case map_of (case map_of b coll of Some x \<Rightarrow> x | None \<Rightarrow> []) action of
                       Some x \<Rightarrow> x | None \<Rightarrow> []))
                 (case map_of b coll of Some x \<Rightarrow> x | None \<Rightarrow> []))
              b)"
proof -
  let ?Q = "\<lambda>ca. distinct_keys (snd ca) \<and> list_all (\<lambda>av. distinct_keys (snd av)) (snd ca)"
  define actions where "actions = (case map_of b coll of Some x \<Rightarrow> x | None \<Rightarrow> [])"
  define versions where "versions = (case map_of actions action of Some x \<Rightarrow> x | None \<Rightarrow> [])"
  from assms have db: "distinct_keys b" and ab: "list_all ?Q b"
    by (simp_all add: wf_bulk_def)
  have qa: "?Q (coll, actions)"
  proof (cases "map_of b coll")
    case None
    then show ?thesis by (simp add: actions_def distinct_keys_Nil)
  next
    case (Some x)
    from list_all_map_of [of ?Q, OF ab Some] show ?thesis
      by (simp add: actions_def Some)
  qed
  have dv: "distinct_keys versions"
  proof (cases "map_of actions action")
    case None
    then show ?thesis by (simp add: versions_def distinct_keys_Nil)
  next
    case (Some x)
    from qa have "list_all (\<lambda>av. distinct_keys (snd av)) actions" by simp
    from list_all_map_of [OF this Some] show ?thesis
      by (simp add: versions_def Some)
  qed
  have "?Q (coll, AList.update action (AList.update ident ver versions) actions)"
    using qa dv by (simp add: distinct_keys_update list_all_update)
  from list_all_update [of ?Q, OF ab this] db
  have "wf_bulk (AList.update coll
                   (AList.update action (AList.update ident ver versions) actions) b)"
    by (simp add: wf_bulk_def distinct_keys_update)
  then show ?thesis
    by (simp only: actions_def versions_def)
qed

lemma addDoc_fields:
  "bulk (addDoc d c) = bulk c" "state (addDoc d c) = state c" "canSend (addDoc d c) = canSend c"
  "socket (addDoc d c) = socket c" "trace (addDoc d c) = trace c"
  by (simp_all add: addDoc_def Let_def)

lemma sendAction_fields:
  "state (snd (sendAction action d ver c)) = state c"
  "canSend (snd (sendAction action d ver c)) = canSend c"
  "socket (snd (sendAction action d ver c)) = socket c"
  by (cases "bulk c";
      simp add: sendAction_def Let_def addDoc_fields only_trace_fields [OF only_trace_send])+

lemma bulk_ok_sendAction:
  assumes "bulk_ok c"
  shows "bulk_ok (snd (sendAction action d ver c))"
proof (cases "bulk c")
  case None
  then show ?thesis
    by (simp add: sendAction_def Let_def addDoc_fields bulk_ok_def
          only_trace_fields [OF only_trace_send])
next
  case (Some b)
  with assms have "wf_bulk b" by (simp add: bulk_ok_def)
  from wf_bulk_record [OF this] Some show ?thesis
    by (simp add: sendAction_def Let_def addDoc_fields bulk_ok_def)
qed

lemma bulk_ok_cleared: "bulk c = None \<Longrightarrow> bulk_ok c"
  by (simp add: bulk_ok_def)

lemma bulk_ok_only_trace: "only_trace c c' \<Longrightarrow> bulk_ok c \<Longrightarrow> bulk_ok c'"
  by (simp add: bulk_ok_def only_trace_fields)

text \<open>The dispatcher touches the trace only, except for a well-formed \<^verbatim>\<open>init\<close>.\<close>

lemma only_trace_append: "only_trace c (c\<lparr>trace := trace c @ t\<rparr>)"
  by (simp add: only_trace_def)

lemma only_trace_emit: "only_trace c (emit name args c)"
  by (simp add: emit_def only_trace_def)

lemma only_trace_console: "only_trace c (console level text args c)"
  by (simp add: console_def only_trace_def)

lemma only_trace_forward: "only_trace c (forward message ident method args c)"
  by (simp add: forward_def only_trace_def split: option.split)

lemma only_trace_query_call: "only_trace c (query_call message method args c)"
  by (simp add: query_call_def only_trace_def split: option.split)

lemma only_trace_bulk_data_loop: "only_trace c (bulk_data_loop ids message method c)"
proof (induction ids arbitrary: c)
  case Nil
  show ?case by (simp add: only_trace_refl)
next
  case (Cons i ids)
  show ?case
    unfolding bulk_data_loop.simps
    by (rule only_trace_trans [OF only_trace_forward Cons.IH])
qed

lemma only_trace_bulk_array_loop: "only_trace c (bulk_array_loop ids message method c)"
proof (induction ids arbitrary: c)
  case Nil
  show ?case by (simp add: only_trace_refl)
next
  case (Cons i ids)
  show ?case
    unfolding bulk_array_loop.simps
    by (rule only_trace_trans [OF only_trace_forward Cons.IH])
qed

lemma only_trace_bulk_keys_loop: "only_trace c (bulk_keys_loop ids message method c)"
proof (induction ids arbitrary: c)
  case Nil
  show ?case by (simp add: only_trace_refl)
next
  case (Cons i ids)
  show ?case
    unfolding bulk_keys_loop.simps
    by (rule only_trace_trans [OF only_trace_forward Cons.IH])
qed

lemma only_trace_handleBulkMessage: "only_trace c (handleBulkMessage message method c)"
  by (simp add: handleBulkMessage_def only_trace_bulk_data_loop only_trace_bulk_array_loop
        only_trace_bulk_keys_loop only_trace_console only_trace_refl split: jsval.split)


lemma only_trace_query_call2:
  "only_trace c (query_call m me ar (if b then query_call m' me' ar' c else c))"
  by (simp add: only_trace_query_call only_trace_trans [OF only_trace_query_call only_trace_query_call])

lemma handleMessage_not_init:
  assumes "read message ''a'' \<noteq> JStr ''init''"
  shows "only_trace c (handleMessage T message c)"
proof (cases "truthy (read message ''error'')")
  case True
  show ?thesis
    unfolding handleMessage_def Let_def
    by (simp add: True assms read_delete only_trace_refl only_trace_console only_trace_forward
        only_trace_query_call only_trace_handleBulkMessage only_trace_query_call2)
next
  case False
  show ?thesis
    unfolding handleMessage_def Let_def
    by (simp add: False assms only_trace_refl only_trace_console only_trace_forward
        only_trace_query_call only_trace_handleBulkMessage only_trace_query_call2)
qed

lemma handleMessage_cases:
  "only_trace c (handleMessage T message c)
   \<or> handleMessage T message c
       = setState ''connected'' JUndefined (c\<lparr>id_conn := read message ''id''\<rparr>)"
proof (cases "read message ''a'' = JStr ''init''")
  case True
  show ?thesis
    by (simp add: handleMessage_init_eq [OF True] only_trace_emit)
next
  case False
  then show ?thesis
    by (simp add: handleMessage_not_init)
qed


lemma conn_inv_only_trace: "only_trace c c' \<Longrightarrow> conn_inv c \<Longrightarrow> conn_inv c'"
  by (simp add: conn_inv_def bulk_ok_def only_trace_fields)

lemma conn_inv_setState:
  assumes "conn_inv c"
  shows "conn_inv (setState newState reason c)"
proof (cases "state c = newState")
  case True
  with assms show ?thesis by (simp add: setState_def)
next
  case False
  show ?thesis
  proof (cases "illegal (state c) newState")
    case True
    with False have "setState newState reason c =
        emit ''error''
          [Err (ShareDBError 5007
             (''Cannot transition directly from '' @ state c @ '' to '' @ newState))] c"
      by (simp add: setState_def)
    with assms show ?thesis
      by (simp add: conn_inv_only_trace [OF only_trace_emit])
  next
    case legal: False
    note a = setState_accepted [OF False legal, of reason]
    from assms have "socket c \<noteq> None" by (simp add: conn_inv_def)
    then show ?thesis
      unfolding conn_inv_def bulk_ok_def a(1) a(2) a(6) a(8) by simp
  qed
qed

lemma conn_inv_bindToSocket:
  assumes "conn_inv c"
  shows "conn_inv (bindToSocket s c)"
proof -
  define c1 where
    "c1 = (case socket c of
             Some old \<Rightarrow> c\<lparr>trace := trace c @ [SocketClose (sock old), SocketUnbind (sock old)]\<rparr>
           | None \<Rightarrow> c)"
  have "only_trace c c1"
    by (simp add: c1_def only_trace_refl only_trace_append split: option.split)
  from this assms have "conn_inv c1" by (rule conn_inv_only_trace)
  then have "conn_inv (c1\<lparr>socket := Some s\<rparr>)"
    by (simp add: conn_inv_def bulk_ok_def)
  then have "conn_inv (setState (connectionState s) JUndefined (c1\<lparr>socket := Some s\<rparr>))"
    by (rule conn_inv_setState)
  then have "conn_inv ((setState (connectionState s) JUndefined (c1\<lparr>socket := Some s\<rparr>))
                         \<lparr>canSend := False\<rparr>)"
    by (simp add: conn_inv_def bulk_ok_def)
  then show ?thesis
    by (simp add: bindToSocket_def Let_def c1_def)
qed

lemma conn_inv_Connection: "conn_inv (Connection s)"
proof -
  let ?c0 = "\<lparr>collections = [], nextQueryId = 1, queries = [], seq = 1, id_conn = JNull,
        agent = None, debug = False, state = connectionState s, socket = None,
        canSend = False, bulk = None, trace = []\<rparr>"
  have "setState (connectionState s) JUndefined (?c0\<lparr>socket := Some s\<rparr>) = ?c0\<lparr>socket := Some s\<rparr>"
    by (simp add: setState_def)
  then show ?thesis
    by (simp add: Connection_def bindToSocket_def Let_def conn_inv_def bulk_ok_def)
qed

lemma conn_inv_handleMessage:
  assumes "conn_inv c"
  shows "conn_inv (handleMessage T message c)"
proof -
  from handleMessage_cases [of c T message] show ?thesis
  proof
    assume "only_trace c (handleMessage T message c)"
    then show ?thesis using assms by (rule conn_inv_only_trace)
  next
    assume e: "handleMessage T message c
               = setState ''connected'' JUndefined (c\<lparr>id_conn := read message ''id''\<rparr>)"
    from assms have "conn_inv (c\<lparr>id_conn := read message ''id''\<rparr>)"
      by (simp add: conn_inv_def bulk_ok_def)
    then show ?thesis unfolding e by (rule conn_inv_setState)
  qed
qed

lemma conn_inv_socket_onmessage:
  assumes "conn_inv c"
  shows "conn_inv (socket_onmessage T parse event c)"
proof -
  have l: "conn_inv (if debug c then console ''log'' ''RECV'' args c else c)" for args
    using assms by (simp add: conn_inv_only_trace [OF only_trace_console])
  have r: "conn_inv (emit ''receive'' args' (if debug c then console ''log'' ''RECV'' args c else c))"
    for args args'
    by (rule conn_inv_only_trace [OF only_trace_emit l])
  show ?thesis
    unfolding socket_onmessage_def Let_def
    by (simp add: r conn_inv_handleMessage conn_inv_only_trace [OF only_trace_console assms]
          split: option.split)
qed

lemma conn_inv_socket_onclose: "conn_inv c \<Longrightarrow> conn_inv (socket_onclose reason c)"
  by (simp add: socket_onclose_def conn_inv_setState)

lemma conn_inv_startBulk: "conn_inv c \<Longrightarrow> conn_inv (startBulk c)"
  by (simp add: startBulk_def conn_inv_def bulk_ok_def wf_bulk_def distinct_keys_def)

lemma conn_inv_endBulk: "conn_inv c \<Longrightarrow> conn_inv (endBulk c)"
  by (simp add: conn_inv_def bulk_ok_def endBulk_fields)

lemma conn_inv_sendAction: "conn_inv c \<Longrightarrow> conn_inv (snd (sendAction action d ver c))"
  by (simp add: conn_inv_def sendAction_fields bulk_ok_sendAction)

text \<open>
  Every reachable connection satisfies the invariant. In particular \<^verbatim>\<open>canSend\<close> is false
  in every state other than \<^verbatim>\<open>connected\<close>; the converse is what \<^verbatim>\<open>bindToSocket\<close>
  breaks.
\<close>

lemma reachable_conn_inv: "reachable T c \<Longrightarrow> conn_inv c"
proof (induction rule: reachable.induct)
  case (r_new s)
  show ?case by (rule conn_inv_Connection)
next
  case (r_bind c s)
  then show ?case by (simp add: conn_inv_bindToSocket)
next
  case (r_onopen c)
  then show ?case by (simp add: socket_onopen_def conn_inv_setState)
next
  case (r_onclose c reason)
  then show ?case by (simp add: conn_inv_socket_onclose)
next
  case (r_onerror c e)
  then show ?case
    by (simp add: socket_onerror_def conn_inv_only_trace [OF only_trace_emit])
next
  case (r_onmessage c parse event)
  then show ?case by (simp add: conn_inv_socket_onmessage)
next
  case (r_handle c message)
  then show ?case by (simp add: conn_inv_handleMessage)
next
  case (r_setState c newState reason)
  then show ?case by (simp add: conn_inv_setState)
next
  case (r_startBulk c)
  then show ?case by (simp add: conn_inv_startBulk)
next
  case (r_endBulk c)
  then show ?case by (simp add: conn_inv_endBulk)
next
  case (r_sendAction c action d ver)
  then show ?case by (simp add: conn_inv_sendAction)
next
  case (r_debug c flag)
  then show ?case by (simp add: conn_inv_def bulk_ok_def)
next
  case (r_agent c a)
  then show ?case by (simp add: conn_inv_def bulk_ok_def)
qed

lemma reachable_canSend_connected: "reachable T c \<Longrightarrow> canSend c \<Longrightarrow> state c = ''connected''"
  using reachable_conn_inv [of T c] by (simp add: conn_inv_def)

lemma reachable_bulk_window:
  assumes "reachable T c" and "bulk c = Some b"
  shows "trace (endBulk c) = trace c @ sends c (bulk_frames b)"
proof -
  from reachable_conn_inv [OF assms(1)] assms(2) have "wf_bulk b"
    by (simp add: conn_inv_def bulk_ok_def)
  then show ?thesis
    by (simp add: endBulk_def assms(2) endBulk_loop_trace)
qed

section \<open>Invariants of the publish/subscribe core\<close>

lemma list_all_delete: "list_all P al \<Longrightarrow> list_all P (AList.delete k al)"
  by (simp add: AList.delete_eq list_all_iff)

lemma distinct_keys_delete: "distinct_keys al \<Longrightarrow> distinct_keys (AList.delete k al)"
  by (simp add: distinct_keys_def distinct_delete)

lemma list_all_mono: "list_all P xs \<Longrightarrow> (\<And>x. P x \<Longrightarrow> Q x) \<Longrightarrow> list_all Q xs"
  by (auto simp: list_all_iff)

lemma list_all_props_of:
  assumes "list_all (\<lambda>hm. list_all Q (snd hm)) (held ps)"
  shows "list_all Q (props_of ps h)"
proof (cases "map_of (held ps) h")
  case None
  then show ?thesis by (simp add: props_of_def)
next
  case (Some m)
  from list_all_map_of [of "\<lambda>hm. list_all Q (snd hm)", OF assms Some] show ?thesis
    by (simp add: props_of_def Some)
qed

text \<open>What \<^verbatim>\<open>this.streams[channel]\<close> finds depends on \<open>streams\<close> and \<open>held\<close> only.\<close>

lemma inherited_cong: "held ps' = held ps \<Longrightarrow> inherited ps' key = inherited ps key"
  by (simp add: inherited_def props_of_def)

lemma stream_place_cong:
  "streams ps' = streams ps \<Longrightarrow> held ps' = held ps \<Longrightarrow>
   stream_place ps' channel = stream_place ps channel"
  by (simp add: stream_place_def inherited_cong [of ps' ps] split: option.split)

lemma ps_inv_createStream:
  assumes "ps_inv ps"
  shows "ps_inv (snd (createStream channel ps))"
proof -
  let ?n = "nextStreamId ps"
  let ?st = "\<lparr>id_stream = ?n\<rparr>"
  let ?Q = "\<lambda>n (is :: nat \<times> stream). fst is < n"
  let ?P = "\<lambda>n cm. snd cm \<noteq> [] \<and> list_all (?Q n) (snd (cm :: string \<times> (nat \<times> stream) list))"
  let ?R = "\<lambda>n hm. list_all (?Q n) (snd (hm :: holder \<times> (nat \<times> stream) list))"
  from assms have d: "distinct_keys (streams ps)" and a: "list_all (?P ?n) (streams ps)"
    and r: "list_all (?R ?n) (held ps)"
    by (simp_all add: ps_inv_def)
  have a': "list_all (?P (Suc ?n)) (streams ps)"
    by (rule list_all_mono [OF a]) (auto simp: list_all_iff)
  have r': "list_all (?R (Suc ?n)) (held ps)"
    by (rule list_all_mono [OF r]) (auto simp: list_all_iff)
  have p: "stream_place (ps\<lparr>streamsCount := streamsCount ps + 1\<rparr>) channel = stream_place ps channel"
    by (rule stream_place_cong) simp_all
  show ?thesis
  proof (cases "stream_place ps channel")
    case None
    have "?P (Suc ?n) (channel, AList.update ?n ?st [])"
      by simp
    from list_all_update [of "?P (Suc ?n)", OF a' this] d r' show ?thesis
      by (simp add: createStream_def Let_def p None ps_inv_def distinct_keys_update)
  next
    case (Some found)
    show ?thesis
    proof (cases found)
      case (Own m)
      with Some have "map_of (streams ps) channel = Some m"
        by (simp add: stream_place_def split: option.splits)
      from list_all_map_of [of "?P (Suc ?n)", OF a' this]
      have "?P (Suc ?n) (channel, AList.update ?n ?st m)"
        by (simp add: list_all_update)
      from list_all_update [of "?P (Suc ?n)", OF a' this] d r' show ?thesis
        by (simp add: createStream_def Let_def p Some Own ps_inv_def distinct_keys_update)
    next
      case (Held h)
      have "list_all (?Q (Suc ?n)) (props_of ps h)"
        by (rule list_all_props_of [OF r'])
      then have "?R (Suc ?n) (h, AList.update ?n ?st (props_of ps h))"
        by (simp add: list_all_update)
      from list_all_update [of "?R (Suc ?n)", OF r' this] d a' show ?thesis
        by (simp add: createStream_def Let_def p Some Held ps_inv_def props_of_def)
    qed
  qed
qed

lemma ps_inv_calls: "ps_inv (ps\<lparr>calls := x\<rparr>) = ps_inv ps"
  by (simp add: ps_inv_def)

lemma ps_inv_ticks: "ps_inv (ps\<lparr>ticks := x\<rparr>) = ps_inv ps"
  by (simp add: ps_inv_def)

lemma ps_inv_subscribed: "ps_inv (ps\<lparr>subscribed := x\<rparr>) = ps_inv ps"
  by (simp add: ps_inv_def)

lemma ps_inv_createStream_pair:
  assumes "createStream channel ps = (st, ps')" and "ps_inv ps"
  shows "ps_inv ps'"
  using ps_inv_createStream [OF assms(2), of channel] assms(1) by simp

lemma ps_inv_run_tick: "ps_inv ps \<Longrightarrow> ps_inv (run_tick t ps)"
  by (cases t) (auto simp: ps_inv_calls split: prod.split intro: ps_inv_createStream_pair)

lemma ps_inv_removeStream:
  assumes "ps_inv ps"
  shows "ps_inv (removeStream returns channel st ps)"
proof -
  let ?Q = "\<lambda>is :: nat \<times> stream. fst is < nextStreamId ps"
  let ?P = "\<lambda>cm. snd cm \<noteq> [] \<and> list_all ?Q (snd (cm :: string \<times> (nat \<times> stream) list))"
  let ?R = "\<lambda>hm. list_all ?Q (snd (hm :: holder \<times> (nat \<times> stream) list))"
  from assms have d: "distinct_keys (streams ps)" and a: "list_all ?P (streams ps)"
    and r: "list_all ?R (held ps)"
    by (simp_all add: ps_inv_def)
  show ?thesis
  proof (cases "stream_place ps channel")
    case None
    with assms show ?thesis by (simp add: removeStream_def)
  next
    case (Some found)
    show ?thesis
    proof (cases found)
      case (Own m)
      with Some have "map_of (streams ps) channel = Some m"
        by (simp add: stream_place_def split: option.splits)
      from list_all_map_of [of ?P, OF a this]
      have m: "list_all ?Q m" by simp
      show ?thesis
      proof (cases "AList.delete (id_stream st) m = []")
        case True
        then show ?thesis
          using d a r
          by (simp add: removeStream_def Some Own Let_def hasKeys_def call_unsubscribe_def
                returns_def ps_inv_def delete_update_same distinct_keys_delete list_all_delete)
      next
        case False
        from m have "?P (channel, AList.delete (id_stream st) m)"
          using False by (simp add: list_all_delete)
        from list_all_update [of ?P, OF a this] d r False show ?thesis
          by (simp add: removeStream_def Some Own Let_def hasKeys_def ps_inv_def
                distinct_keys_update)
      qed
    next
      case (Held h)
      have "list_all ?Q (props_of ps h)"
        by (rule list_all_props_of [OF r])
      then have "?R (h, AList.delete (id_stream st) (props_of ps h))"
        by (simp add: list_all_delete)
      from list_all_update [of ?R, OF r this]
      have h: "list_all ?R (AList.update h (AList.delete (id_stream st) (props_of ps h)) (held ps))" .
      show ?thesis
        using d a h
        by (simp add: removeStream_def Some Held Let_def call_unsubscribe_def returns_def
              ps_inv_def props_of_def distinct_keys_delete list_all_delete)
    qed
  qed
qed

lemma ps_reachable_inv: "ps_reachable ps \<Longrightarrow> ps_inv ps"
proof (induction rule: ps_reachable.induct)
  case (p_new p)
  show ?case by (simp add: PubSub_def ps_inv_def distinct_keys_def)
next
  case (p_publish ps channels dat callback h)
  then show ?case by (simp add: publish_def Let_def ps_inv_calls)
next
  case (p_subscribe ps channel callback)
  then show ?case by (simp add: subscribe_def Let_def ps_inv_calls ps_inv_ticks)
next
  case (p_tick ps)
  then show ?case
    by (simp add: next_tick_def ps_inv_run_tick ps_inv_ticks split: list.split)
next
  case (p_subscribed ps channel callback err)
  from p_subscribed.IH
  have "ps_inv (if channel = ''__proto__'' then ps
                else ps\<lparr>subscribed := AList.update channel True (subscribed ps)\<rparr>)"
    by (simp add: ps_inv_subscribed)
  with p_subscribed.IH show ?case
    by (auto simp: subscribe_done_def Let_def ps_inv_calls split: prod.split
          intro: ps_inv_createStream_pair)
next
  case (p_close ps channel st)
  then show ?case by (simp add: ps_inv_removeStream)
qed

text \<open>
  The stream that a queued subscription creates is a new one: no stream registered at
  that moment, in an inner map or on a holder, has its id.
\<close>

lemma ps_reachable_next_id_unused:
  assumes "ps_reachable ps" and "stream_map ps channel = Some m"
  shows "map_of m (nextStreamId ps) = None"
proof -
  let ?Q = "\<lambda>is :: nat \<times> stream. fst is < nextStreamId ps"
  let ?P = "\<lambda>cm. snd cm \<noteq> [] \<and> list_all ?Q (snd (cm :: string \<times> (nat \<times> stream) list))"
  from ps_reachable_inv [OF assms(1)] have a: "list_all ?P (streams ps)"
    and r: "list_all (\<lambda>hm. list_all ?Q (snd hm)) (held ps)"
    by (simp_all add: ps_inv_def)
  have "list_all ?Q m"
  proof (cases "map_of (streams ps) channel")
    case (Some x)
    with assms(2) have "x = m" by (simp add: stream_map_def stream_place_def)
    with list_all_map_of [of ?P, OF a Some] show ?thesis by simp
  next
    case None
    with assms(2) obtain h where "m = props_of ps h"
      by (auto simp: stream_map_def stream_place_def split: option.splits)
    with list_all_props_of [OF r, of h] show ?thesis by simp
  qed
  then have "nextStreamId ps \<notin> fst ` set m"
    by (auto simp: list_all_iff)
  then show ?thesis
    by (simp add: map_of_eq_None_iff)
qed

lemma ps_reachable_next_id_unused_own:
  assumes "ps_reachable ps" and "map_of (streams ps) channel = Some m"
  shows "map_of m (nextStreamId ps) = None"
  using ps_reachable_next_id_unused [OF assms(1), of channel m] assms(2)
  by (simp add: stream_map_def stream_place_def)

section \<open>The publish/subscribe core: prefixing, subscribing, closing streams\<close>

text \<open>The loop of \<^verbatim>\<open>publish\<close> from index \<open>i\<close> on prefixes every element from \<open>i\<close> on.\<close>

lemma prefix_loop_eq:
  "i \<le> length channels \<Longrightarrow>
   prefix_loop p i channels = take i channels @ map (\<lambda>ch. p @ '' '' @ ch) (drop i channels)"
proof (induction p i channels rule: prefix_loop.induct)
  case (1 p i channels)
  show ?case
  proof (cases "i < length channels")
    case True
    let ?cs = "channels[i := p @ '' '' @ channels ! i]"
    from True have "Suc i \<le> length ?cs" by simp
    from "1.IH" [OF True this]
    have "prefix_loop p (Suc i) ?cs =
            take (Suc i) ?cs @ map (\<lambda>ch. p @ '' '' @ ch) (drop (Suc i) ?cs)" .
    also have "take (Suc i) ?cs = take i channels @ [p @ '' '' @ channels ! i]"
      using True by (simp add: take_Suc_conv_app_nth)
    also have "drop (Suc i) ?cs = drop (Suc i) channels"
      by simp
    finally show ?thesis
      using True by (subst prefix_loop.simps) (simp add: Cons_nth_drop_Suc [symmetric])
  next
    case False
    with "1.prems" have "i = length channels" by simp
    then show ?thesis by (subst prefix_loop.simps) simp
  qed
qed

lemma prefix_loop_map: "prefix_loop p 0 channels = map (\<lambda>ch. p @ '' '' @ ch) channels"
  using prefix_loop_eq [of 0 channels p] by simp

text \<open>
  Claim C9. For every call of \<^verbatim>\<open>publish(channels, data, cb)\<close> with a prefix configured
  (\<^verbatim>\<open>this.prefix\<close> holds a non-empty string), the caller's array is changed in place, each
  element replaced by the prefix, a space and the element, before the array is handed to
  the transport's \<^verbatim>\<open>_publish\<close>; with no prefix the array is unchanged. No other array of
  the store is touched, and the transport receives the caller's array itself.
\<close>

theorem publish_prefixes_in_place:
  "fst (publish channels dat callback (h, ps)) channels =
     (case truthy_prefix ps of
        Some p \<Rightarrow> map (\<lambda>ch. p @ '' '' @ ch) (h channels)
      | None \<Rightarrow> h channels)
   \<and> (\<forall>other. other \<noteq> channels \<longrightarrow>
         fst (publish channels dat callback (h, ps)) other = h other)
   \<and> calls (snd (publish channels dat callback (h, ps))) =
       calls ps @ [TransportPublish channels
                     (fst (publish channels dat callback (h, ps)) channels) dat callback]"
  by (simp add: publish_def Let_def prefix_loop_map split: option.split)

theorem publish_prefixes_in_place_witness:
  "fst (publish 0 JNull 9 ((\<lambda>a. if a = 0 then [''books'', ''books.id1''] else [''other'']),
                           PubSub (Some ''app''))) 0
     = [''app books'', ''app books.id1'']
   \<and> fst (publish 0 JNull 9 ((\<lambda>a. if a = 0 then [''books'', ''books.id1''] else [''other'']),
                             PubSub (Some ''app''))) 1
     = [''other'']
   \<and> fst (publish 0 JNull 9 ((\<lambda>a. if a = 0 then [''books'', ''books.id1''] else [''other'']),
                             PubSub None)) 0
     = [''books'', ''books.id1'']"
  using publish_prefixes_in_place
          [of 0 JNull 9 "\<lambda>a. if a = 0 then [''books'', ''books.id1''] else [''other'']"
              "PubSub (Some ''app'')"]
        publish_prefixes_in_place
          [of 0 JNull 9 "\<lambda>a. if a = 0 then [''books'', ''books.id1''] else [''other'']"
              "PubSub None"]
  by (simp add: PubSub_def truthy_prefix_def)

lemma room_example_eq:
  "room_example =
     \<lparr>prefix = None, nextStreamId = 2, streamsCount = 1,
      streams = [(''room'', [(1, \<lparr>id_stream = 1\<rparr>)])], subscribed = [(''room'', True)],
      held = [],
      calls = [TransportSubscribe ''room'' 1, Callback 1 [Null, Stream \<lparr>id_stream = 1\<rparr>]],
      ticks = []\<rparr>"
  by (simp add: room_example_def PubSub_def subscribe_def subscribe_done_def createStream_def
        prefixed_def truthy_prefix_def is_subscribed_def inherited_def proto_members_def
        props_of_def stream_place_def Let_def)

text \<open>What \<^verbatim>\<open>_createStream\<close> returns, and where the stream is afterwards.\<close>

lemma createStream_result:
  "fst (createStream channel ps) = \<lparr>id_stream = nextStreamId ps\<rparr>"
  "nextStreamId (snd (createStream channel ps)) = nextStreamId ps + 1"
  "calls (snd (createStream channel ps)) = calls ps"
  by (simp_all add: createStream_def Let_def split: option.split place.split)

lemma props_of_cong: "held ps' = held ps \<Longrightarrow> props_of ps' h = props_of ps h"
  by (simp add: props_of_def)

lemma stream_map_cong:
  "streams ps' = streams ps \<Longrightarrow> held ps' = held ps \<Longrightarrow>
   stream_map ps' channel = stream_map ps channel"
  by (simp add: stream_map_def stream_place_cong [of ps' ps] props_of_cong [of ps' ps]
        split: option.split place.split)

lemma createStream_place:
  "stream_place (ps\<lparr>streamsCount := streamsCount ps + 1\<rparr>) channel = stream_place ps channel"
  by (rule stream_place_cong) simp_all

lemma createStream_None:
  assumes "stream_place ps channel = None"
  shows "snd (createStream channel ps) =
           ps\<lparr>streamsCount := streamsCount ps + 1, nextStreamId := nextStreamId ps + 1,
              streams := AList.update channel
                           [(nextStreamId ps, \<lparr>id_stream = nextStreamId ps\<rparr>)] (streams ps)\<rparr>"
  by (simp add: createStream_def Let_def createStream_place assms)

lemma createStream_Own:
  assumes "stream_place ps channel = Some (Own m)"
  shows "snd (createStream channel ps) =
           ps\<lparr>streamsCount := streamsCount ps + 1, nextStreamId := nextStreamId ps + 1,
              streams := AList.update channel
                           (AList.update (nextStreamId ps) \<lparr>id_stream = nextStreamId ps\<rparr> m)
                           (streams ps)\<rparr>"
  by (simp add: createStream_def Let_def createStream_place assms)

lemma createStream_Held:
  assumes "stream_place ps channel = Some (Held h)"
  shows "snd (createStream channel ps) =
           ps\<lparr>streamsCount := streamsCount ps + 1, nextStreamId := nextStreamId ps + 1,
              held := AList.update h
                        (AList.update (nextStreamId ps) \<lparr>id_stream = nextStreamId ps\<rparr>
                           (props_of ps h))
                        (held ps)\<rparr>"
  by (simp add: createStream_def Let_def createStream_place assms props_of_def)

lemma inherited_StreamObject:
  "inherited ps key = Some (StreamObject i) \<Longrightarrow> key \<notin> set proto_members"
  by (simp add: inherited_def split: if_splits)

lemma inherited_Member:
  "inherited ps key = Some (Member name) \<Longrightarrow> name = key \<and> key \<in> set proto_members"
  by (simp add: inherited_def split: if_splits option.splits)

lemma inherited_after_store:
  assumes "inherited ps key = Some h"
  shows "inherited (ps\<lparr>held := AList.update h m (held ps)\<rparr>) key = Some h"
proof (cases h)
  case (Member name)
  with assms have "key \<in> set proto_members" "name = key"
    using inherited_Member by blast+
  with Member show ?thesis by (simp add: inherited_def)
next
  case (StreamObject i)
  with assms have "key \<notin> set proto_members"
    using inherited_StreamObject by blast
  with assms StreamObject show ?thesis
    by (simp add: inherited_def props_of_def update_conv)
qed

lemma createStream_registers:
  "\<exists>m. stream_map (snd (createStream channel ps)) channel = Some m
       \<and> map_of m (nextStreamId ps) = Some \<lparr>id_stream = nextStreamId ps\<rparr>"
proof (cases "stream_place ps channel")
  case None
  show ?thesis
    unfolding createStream_None [OF None]
    by (simp add: stream_map_def stream_place_def update_conv)
next
  case (Some found)
  show ?thesis
  proof (cases found)
    case (Own m)
    show ?thesis
      unfolding createStream_Own [OF Some [unfolded Own]]
      by (simp add: stream_map_def stream_place_def update_conv)
  next
    case (Held h)
    from Some Held have o: "map_of (streams ps) channel = None"
      and i: "inherited ps channel = Some h"
      by (auto simp: stream_place_def split: option.splits)
    let ?m = "AList.update (nextStreamId ps) \<lparr>id_stream = nextStreamId ps\<rparr> (props_of ps h)"
    let ?ps = "ps\<lparr>held := AList.update h ?m (held ps)\<rparr>"
    have "stream_map ?ps channel = Some ?m"
      using o inherited_after_store [OF i, of ?m]
      by (simp add: stream_map_def stream_place_def props_of_def update_conv)
    moreover have "stream_map (snd (createStream channel ps)) channel = stream_map ?ps channel"
      unfolding createStream_Held [OF Some [unfolded Held]]
      by (rule stream_map_cong) simp_all
    ultimately show ?thesis
      by (simp add: update_conv)
  qed
qed

lemma createStream_registers_own:
  assumes "map_of (streams ps) channel \<noteq> None \<or> inherited ps channel = None"
  shows "\<exists>m. map_of (streams (snd (createStream channel ps))) channel = Some m
           \<and> map_of m (nextStreamId ps) = Some \<lparr>id_stream = nextStreamId ps\<rparr>"
proof (cases "map_of (streams ps) channel")
  case (Some m)
  then have "stream_place ps channel = Some (Own m)"
    by (simp add: stream_place_def)
  from createStream_Own [OF this] show ?thesis
    by (simp add: update_conv)
next
  case None
  with assms have "inherited ps channel = None" by simp
  with None have "stream_place ps channel = None"
    by (simp add: stream_place_def)
  from createStream_None [OF this] show ?thesis
    by (simp add: update_conv)
qed

lemma run_tick_eq:
  "run_tick (CreateStreamAndCallBack channel callback) ps =
     (snd (createStream channel ps))
       \<lparr>calls := calls ps @ [Callback callback [Null, Stream \<lparr>id_stream = nextStreamId ps\<rparr>]]\<rparr>"
  using createStream_result [of channel ps]
  by (cases "createStream channel ps") simp

text \<open>
  Claim C7. For every call of \<^verbatim>\<open>subscribe(channel, cb)\<close> at a moment when
  \<^verbatim>\<open>subscribed[channel]\<close> is true (after prefixing), no call of the transport's
  \<^verbatim>\<open>_subscribe\<close> is made and the callback is not called within \<^verbatim>\<open>subscribe\<close>: the call
  only queues a function for the next tick. When that function runs, in whatever state
  \<open>later\<close> the instance is in by then, it creates a stream with the next stream id,
  registers it in the map that \<^verbatim>\<open>this.streams[channel]\<close> finds (the inner map of the
  channel in \<^verbatim>\<open>streams\<close>, unless the channel has none and its name is inherited), and
  calls the callback with it. The stream is a new one: in a reachable instance no
  registered stream has that id.
\<close>

theorem subscribe_already_subscribed:
  assumes "map_of (subscribed ps) (prefixed ps channel) = Some True"
  shows "subscribe channel callback ps =
           ps\<lparr>ticks := ticks ps @ [CreateStreamAndCallBack (prefixed ps channel) callback]\<rparr>
       \<and> calls (subscribe channel callback ps) = calls ps
       \<and> (\<forall>later.
            calls (run_tick (CreateStreamAndCallBack (prefixed ps channel) callback) later) =
              calls later @ [Callback callback [Null, Stream \<lparr>id_stream = nextStreamId later\<rparr>]]
            \<and> nextStreamId (run_tick (CreateStreamAndCallBack (prefixed ps channel) callback) later)
                = nextStreamId later + 1
            \<and> (\<exists>m. stream_map (run_tick (CreateStreamAndCallBack (prefixed ps channel) callback)
                                  later)
                        (prefixed ps channel) = Some m
                   \<and> map_of m (nextStreamId later) = Some \<lparr>id_stream = nextStreamId later\<rparr>)
            \<and> (map_of (streams later) (prefixed ps channel) \<noteq> None
                  \<or> inherited later (prefixed ps channel) = None \<longrightarrow>
                 (\<exists>m. map_of (streams (run_tick (CreateStreamAndCallBack (prefixed ps channel)
                                                  callback) later))
                         (prefixed ps channel) = Some m
                    \<and> map_of m (nextStreamId later) = Some \<lparr>id_stream = nextStreamId later\<rparr>))
            \<and> (ps_reachable later \<longrightarrow>
                 (\<forall>any m. stream_map later any = Some m \<longrightarrow>
                            map_of m (nextStreamId later) = None)
                 \<and> (\<forall>any m. map_of (streams later) any = Some m \<longrightarrow>
                            map_of m (nextStreamId later) = None)))"
proof -
  let ?ch = "prefixed ps channel"
  have s: "subscribe channel callback ps =
             ps\<lparr>ticks := ticks ps @ [CreateStreamAndCallBack ?ch callback]\<rparr>"
    using assms by (simp add: subscribe_def Let_def is_subscribed_def)
  have r: "stream_map (run_tick (CreateStreamAndCallBack ?ch callback) later) ?ch
             = stream_map (snd (createStream ?ch later)) ?ch" for later
    unfolding run_tick_eq by (rule stream_map_cong) simp_all
  have t: "\<exists>m. stream_map (run_tick (CreateStreamAndCallBack ?ch callback) later) ?ch = Some m
             \<and> map_of m (nextStreamId later) = Some \<lparr>id_stream = nextStreamId later\<rparr>" for later
    unfolding r by (rule createStream_registers)
  have o: "\<exists>m. map_of (streams (run_tick (CreateStreamAndCallBack ?ch callback) later)) ?ch = Some m
             \<and> map_of m (nextStreamId later) = Some \<lparr>id_stream = nextStreamId later\<rparr>"
    if "map_of (streams later) ?ch \<noteq> None \<or> inherited later ?ch = None" for later
    using createStream_registers_own [OF that] unfolding run_tick_eq by simp
  have c: "calls (run_tick (CreateStreamAndCallBack ?ch callback) later) =
             calls later @ [Callback callback [Null, Stream \<lparr>id_stream = nextStreamId later\<rparr>]]"
    and n: "nextStreamId (run_tick (CreateStreamAndCallBack ?ch callback) later)
              = nextStreamId later + 1" for later
    unfolding run_tick_eq by (simp_all add: createStream_result)
  have f: "map_of m (nextStreamId later) = None"
    if "ps_reachable later" "stream_map later any = Some m" for later any m
    using that by (rule ps_reachable_next_id_unused)
  have g: "map_of m (nextStreamId later) = None"
    if "ps_reachable later" "map_of (streams later) any = Some m" for later any m
    using that by (rule ps_reachable_next_id_unused_own)
  from s have k: "calls (subscribe channel callback ps) = calls ps" by simp
  show ?thesis
    by (intro conjI allI impI;
        (rule s k c n t | (rule o, assumption) | (rule f, assumption, assumption)
         | (rule g, assumption, assumption)))
qed

theorem subscribe_already_subscribed_witness:
  "map_of (subscribed room_example) (prefixed room_example ''room'') = Some True
   \<and> calls (subscribe ''room'' 2 room_example) = calls room_example
   \<and> ticks (subscribe ''room'' 2 room_example) = [CreateStreamAndCallBack ''room'' 2]
   \<and> calls (next_tick (subscribe ''room'' 2 room_example)) =
       calls room_example @ [Callback 2 [Null, Stream \<lparr>id_stream = 2\<rparr>]]"
proof -
  have p: "prefixed room_example ''room'' = ''room''"
    by (simp add: prefixed_def truthy_prefix_def room_example_eq)
  have s: "map_of (subscribed room_example) (prefixed room_example ''room'') = Some True"
    by (simp add: p) (simp add: room_example_eq)
  note t = subscribe_already_subscribed [OF s, of 2, unfolded p]
  from t have 1: "subscribe ''room'' 2 room_example =
      room_example\<lparr>ticks := ticks room_example @ [CreateStreamAndCallBack ''room'' 2]\<rparr>"
    by (rule conjunct1)
  from t have "\<forall>later. calls (run_tick (CreateStreamAndCallBack ''room'' 2) later) =
      calls later @ [Callback 2 [Null, Stream \<lparr>id_stream = nextStreamId later\<rparr>]]"
    by (simp only: simp_thms)
  then have 2: "calls (run_tick (CreateStreamAndCallBack ''room'' 2) later) =
      calls later @ [Callback 2 [Null, Stream \<lparr>id_stream = nextStreamId later\<rparr>]]" for later
    by (rule spec)
  have 3: "next_tick (subscribe ''room'' 2 room_example) =
             run_tick (CreateStreamAndCallBack ''room'' 2) (room_example\<lparr>ticks := []\<rparr>)"
    unfolding next_tick_def 1 by (simp add: room_example_eq del: run_tick.simps)
  have 4: "calls (next_tick (subscribe ''room'' 2 room_example)) =
             calls room_example @ [Callback 2 [Null, Stream \<lparr>id_stream = 2\<rparr>]]"
    unfolding 3 2 by (simp add: room_example_eq)
  have 5: "ticks (subscribe ''room'' 2 room_example) = [CreateStreamAndCallBack ''room'' 2]"
    "calls (subscribe ''room'' 2 room_example) = calls room_example"
    unfolding 1 by (simp_all add: room_example_eq)
  from s 4 5 show ?thesis
    by (simp only: simp_thms)
qed

text \<open>While nothing marks the channel as subscribed, \<^verbatim>\<open>subscribe\<close> goes to the transport.\<close>

lemma subscribe_not_subscribed:
  assumes "\<not> is_subscribed ps (prefixed ps channel)"
  shows "subscribe channel callback ps =
           ps\<lparr>calls := calls ps @ [TransportSubscribe (prefixed ps channel) callback]\<rparr>"
  using assms by (simp add: subscribe_def Let_def)




end
